theory Spec2Isabelle
  imports Main "HOL-Library.Sublist"
begin

section \<open>Bitcoin Well to Koinly converter: the core of app.tsx\<close>

text \<open>
  The development follows the current revision of the converter (the one with
  \<^verbatim>\<open>convertMountainTimeToUTC\<close>): the swap filter, \<^verbatim>\<open>convertRow\<close>,
  and \<^verbatim>\<open>generateKoinlyCsv\<close>.

  Modelling decisions.
  \<^item> A JavaScript string is a \<open>string\<close> (a list of characters). The exports are ASCII
    text; \<^verbatim>\<open>toLowerCase\<close> is modelled on the ASCII letters and leaves every other
    character as it is. (No character outside ASCII lower-cases to a letter of
    \<^verbatim>\<open>buy\<close>, \<^verbatim>\<open>sell\<close> or \<^verbatim>\<open>swap\<close>, the only words the code looks for.)
  \<^item> A JavaScript object whose property values are strings is a map from keys to strings.
    Reading \<^verbatim>\<open>obj[key]\<close> gives \<^verbatim>\<open>undefined\<close> for a missing key and for a key
    bound to \<^verbatim>\<open>undefined\<close> alike; both are \<open>None\<close>.
  \<^item> Calling a method on \<^verbatim>\<open>undefined\<close> throws a \<^verbatim>\<open>TypeError\<close>; functions that
    can throw return \<open>error + 'a\<close>.
\<close>

subsection \<open>Values and errors\<close>

datatype error = TypeError

type_synonym jsobject = "string \<Rightarrow> string option"

subsection \<open>Strings\<close>

definition dquote :: char where
  "dquote = CHR 0x22"

definition newline :: char where
  "newline = CHR 0x0A"

text \<open>\<^verbatim>\<open>String.prototype.toLowerCase\<close>, on ASCII.\<close>

definition lowerChar :: "char \<Rightarrow> char" where
  "lowerChar c =
     (let n = (of_char c :: nat) in if 65 \<le> n \<and> n \<le> 90 then char_of (n + 32) else c)"

definition toLowerCase :: "string \<Rightarrow> string" where
  "toLowerCase s = map lowerChar s"

text \<open>\<^verbatim>\<open>String.prototype.includes\<close>: does \<open>t\<close> occur in \<open>s\<close> as a contiguous substring?\<close>

primrec startsWith :: "string \<Rightarrow> string \<Rightarrow> bool" where
  "startsWith s [] = True"
| "startsWith s (c # t) = (case s of [] \<Rightarrow> False | d # s' \<Rightarrow> d = c \<and> startsWith s' t)"

primrec includesStr :: "string \<Rightarrow> string \<Rightarrow> bool" where
  "includesStr [] t = (t = [])"
| "includesStr (c # s) t = (startsWith (c # s) t \<or> includesStr s t)"

text \<open>\<^verbatim>\<open>s.replace(' ', 'T')\<close> with a string pattern replaces the first occurrence only.\<close>

primrec replaceFirst :: "char \<Rightarrow> char \<Rightarrow> string \<Rightarrow> string" where
  "replaceFirst a b [] = []"
| "replaceFirst a b (c # s) = (if c = a then b # s else c # replaceFirst a b s)"

text \<open>\<^verbatim>\<open>value.replace(/"/g, '""')\<close>: every double quote is replaced by two.\<close>

primrec replaceQuotes :: "string \<Rightarrow> string" where
  "replaceQuotes [] = []"
| "replaceQuotes (c # s) = (if c = dquote then dquote # dquote # replaceQuotes s else c # replaceQuotes s)"

text \<open>\<^verbatim>\<open>s.padStart(n, '0')\<close>.\<close>

definition padStart :: "nat \<Rightarrow> string \<Rightarrow> string" where
  "padStart n s = replicate (n - length s) (CHR ''0'') @ s"

text \<open>\<^verbatim>\<open>Array.prototype.join\<close> on an array of strings.\<close>

fun join :: "string \<Rightarrow> string list \<Rightarrow> string" where
  "join sep [] = []"
| "join sep [x] = x"
| "join sep (x # y # ys) = x @ sep @ join sep (y # ys)"

text \<open>Decimal rendering of an integer, as \<^verbatim>\<open>Number.prototype.toString\<close> gives it.\<close>

definition digitChar :: "nat \<Rightarrow> char" where
  "digitChar d = char_of (48 + d)"

fun natToString :: "nat \<Rightarrow> string" where
  "natToString n = (if n < 10 then [digitChar n] else natToString (n div 10) @ [digitChar (n mod 10)])"

declare natToString.simps [simp del]

definition intToString :: "int \<Rightarrow> string" where
  "intToString i = (if i < 0 then CHR ''-'' # natToString (nat (- i)) else natToString (nat i))"

text \<open>Reading decimal digits.\<close>

definition isDigit :: "char \<Rightarrow> bool" where
  "isDigit c = (48 \<le> (of_char c :: nat) \<and> (of_char c :: nat) \<le> 57)"

definition digitVal :: "char \<Rightarrow> int" where
  "digitVal c = int (of_char c) - 48"

definition number :: "string \<Rightarrow> int" where
  "number s = foldl (\<lambda>a c. 10 * a + digitVal c) 0 s"

definition substring :: "string \<Rightarrow> nat \<Rightarrow> nat \<Rightarrow> string" where
  "substring s i j = take (j - i) (drop i s)"

subsection \<open>The Date object\<close>

text \<open>
  Time values are milliseconds since the epoch; \<open>None\<close> is \<^verbatim>\<open>NaN\<close>, the time value
  of an invalid Date. The day and year arithmetic is the one of ECMAScript (Day Number,
  Year Number, Month Number, Date Number, MakeDay, MakeTime, MakeDate, TimeClip).
\<close>

definition msPerDay :: int where "msPerDay = 86400000"
definition msPerHour :: int where "msPerHour = 3600000"
definition msPerMinute :: int where "msPerMinute = 60000"
definition msPerSecond :: int where "msPerSecond = 1000"

definition Day :: "int \<Rightarrow> int" where
  "Day t = t div msPerDay"

definition DaysInYear :: "int \<Rightarrow> int" where
  "DaysInYear y =
     (if y mod 4 \<noteq> 0 then 365 else if y mod 100 \<noteq> 0 then 366
      else if y mod 400 \<noteq> 0 then 365 else 366)"

definition DayFromYear :: "int \<Rightarrow> int" where
  "DayFromYear y = 365 * (y - 1970) + (y - 1969) div 4 - (y - 1901) div 100 + (y - 1601) div 400"

text \<open>
  ECMAScript: the year of a day is the largest \<open>y\<close> with \<open>DayFromYear y \<le> d\<close>. Computed
  from the mean length of a year, corrected by at most one.
\<close>

definition YearFromDay :: "int \<Rightarrow> int" where
  "YearFromDay d =
     (let y = 1970 + (400 * d) div 146097
      in if DayFromYear (y + 1) \<le> d then y + 1 else if d < DayFromYear y then y - 1 else y)"

definition YearFromTime :: "int \<Rightarrow> int" where
  "YearFromTime t = YearFromDay (Day t)"

text \<open>1 for a leap year, 0 otherwise.\<close>

definition leap :: "int \<Rightarrow> int" where
  "leap y = (if DaysInYear y = 366 then 1 else 0)"

definition InLeapYear :: "int \<Rightarrow> int" where
  "InLeapYear t = leap (YearFromTime t)"

definition DayWithinYear :: "int \<Rightarrow> int" where
  "DayWithinYear t = Day t - DayFromYear (YearFromTime t)"

definition MonthFromTime :: "int \<Rightarrow> int" where
  "MonthFromTime t =
     (let d = DayWithinYear t; l = InLeapYear t
      in if d < 31 then 0
         else if d < 59 + l then 1
         else if d < 90 + l then 2
         else if d < 120 + l then 3
         else if d < 151 + l then 4
         else if d < 181 + l then 5
         else if d < 212 + l then 6
         else if d < 243 + l then 7
         else if d < 273 + l then 8
         else if d < 304 + l then 9
         else if d < 334 + l then 10
         else 11)"

definition DateFromTime :: "int \<Rightarrow> int" where
  "DateFromTime t =
     (let d = DayWithinYear t; l = InLeapYear t; m = MonthFromTime t
      in if m = 0 then d + 1
         else if m = 1 then d - 30
         else if m = 2 then d - 58 - l
         else if m = 3 then d - 89 - l
         else if m = 4 then d - 119 - l
         else if m = 5 then d - 150 - l
         else if m = 6 then d - 180 - l
         else if m = 7 then d - 211 - l
         else if m = 8 then d - 242 - l
         else if m = 9 then d - 272 - l
         else if m = 10 then d - 303 - l
         else d - 333 - l)"

definition HourFromTime :: "int \<Rightarrow> int" where
  "HourFromTime t = (t div msPerHour) mod 24"

definition MinFromTime :: "int \<Rightarrow> int" where
  "MinFromTime t = (t div msPerMinute) mod 60"

definition MakeTime :: "int \<Rightarrow> int \<Rightarrow> int \<Rightarrow> int \<Rightarrow> int" where
  "MakeTime h m s ms = h * msPerHour + m * msPerMinute + s * msPerSecond + ms"

text \<open>Days before the first of month \<open>mn\<close> (0-based) in a year; \<open>l\<close> is 1 in a leap year.\<close>

definition daysBeforeMonth :: "int \<Rightarrow> int \<Rightarrow> int" where
  "daysBeforeMonth mn l =
     (if mn = 0 then 0
      else if mn = 1 then 31
      else if mn = 2 then 59 + l
      else if mn = 3 then 90 + l
      else if mn = 4 then 120 + l
      else if mn = 5 then 151 + l
      else if mn = 6 then 181 + l
      else if mn = 7 then 212 + l
      else if mn = 8 then 243 + l
      else if mn = 9 then 273 + l
      else if mn = 10 then 304 + l
      else 334 + l)"

definition MakeDay :: "int \<Rightarrow> int \<Rightarrow> int \<Rightarrow> int" where
  "MakeDay year month date =
     (let ym = year + month div 12; mn = month mod 12
      in DayFromYear ym + daysBeforeMonth mn (leap ym) + date - 1)"

definition MakeDate :: "int \<Rightarrow> int \<Rightarrow> int" where
  "MakeDate day time = day * msPerDay + time"

definition TimeClip :: "int \<Rightarrow> int option" where
  "TimeClip t = (if \<bar>t\<bar> > 8640000000000000 then None else Some t)"

text \<open>Days in month \<open>m\<close> (1-based) of year \<open>y\<close>.\<close>

definition daysInMonth :: "int \<Rightarrow> int \<Rightarrow> int" where
  "daysInMonth y m =
     (if m = 2 then 28 + leap y
      else if m = 4 \<or> m = 6 \<or> m = 9 \<or> m = 11 then 30 else 31)"

text \<open>
  \<^verbatim>\<open>Date.parse\<close>. ECMAScript fixes the result for a string in its Date Time String
  Format and leaves every other string to the engine. \<open>parseIsoDateTime\<close> recognises the
  instance of the format that a timestamp \<^verbatim>\<open>YYYY-MM-DD HH:mm:ss\<close> turns into,
  \<^verbatim>\<open>YYYY-MM-DDTHH:mm:ss\<close> followed by a numeric offset, with every element in range
  (a day that exists in its month, hours up to 23). Whatever it does not recognise is
  handed to the engine's own parser, the parameter \<open>legacy\<close>.
\<close>

definition digitPositions :: "nat list" where
  "digitPositions = [0, 1, 2, 3, 5, 6, 8, 9, 11, 12, 14, 15, 17, 18, 20, 21, 23, 24]"

definition isoShape :: "string \<Rightarrow> bool" where
  "isoShape s =
     (length s = 25 \<and> s ! 4 = CHR ''-'' \<and> s ! 7 = CHR ''-'' \<and> s ! 10 = CHR ''T''
      \<and> s ! 13 = CHR '':'' \<and> s ! 16 = CHR '':''
      \<and> (s ! 19 = CHR ''+'' \<or> s ! 19 = CHR ''-'') \<and> s ! 22 = CHR '':''
      \<and> list_all (\<lambda>i. isDigit (s ! i)) digitPositions)"

definition parseIsoDateTime :: "string \<Rightarrow> int option" where
  "parseIsoDateTime s =
     (if isoShape s then
        (let y = number (substring s 0 4); mo = number (substring s 5 7);
             d = number (substring s 8 10); h = number (substring s 11 13);
             mi = number (substring s 14 16); sec = number (substring s 17 19);
             sign = (if s ! 19 = CHR ''-'' then - 1 else 1);
             oh = number (substring s 20 22); om = number (substring s 23 25)
         in if 1 \<le> mo \<and> mo \<le> 12 \<and> 1 \<le> d \<and> d \<le> daysInMonth y mo \<and> h \<le> 23 \<and> mi \<le> 59
               \<and> sec \<le> 59 \<and> oh \<le> 23 \<and> om \<le> 59
            then Some (MakeDate (MakeDay y (mo - 1) d) (MakeTime h mi sec 0)
                       - sign * (oh * msPerHour + om * msPerMinute))
            else None)
      else None)"

definition Date_parse :: "(string \<Rightarrow> int option) \<Rightarrow> string \<Rightarrow> int option" where
  "Date_parse legacy s =
     (case parseIsoDateTime s of Some t \<Rightarrow> TimeClip t
      | None \<Rightarrow> (case legacy s of Some t \<Rightarrow> TimeClip t | None \<Rightarrow> None))"

text \<open>An engine whose parser accepts nothing beyond the standard format.\<close>

definition no_fallback :: "string \<Rightarrow> int option" where
  "no_fallback s = None"

text \<open>
  The getters of a Date with time value \<open>tv\<close>: \<^verbatim>\<open>NaN\<close> for an invalid Date.
  \<open>numberToString\<close> is \<^verbatim>\<open>toString\<close> (and template interpolation) on such a number.
\<close>

definition getUTCFullYear :: "int option \<Rightarrow> int option" where
  "getUTCFullYear tv = map_option YearFromTime tv"

definition getUTCMonth :: "int option \<Rightarrow> int option" where
  "getUTCMonth tv = map_option MonthFromTime tv"

definition getUTCDate :: "int option \<Rightarrow> int option" where
  "getUTCDate tv = map_option DateFromTime tv"

definition getUTCHours :: "int option \<Rightarrow> int option" where
  "getUTCHours tv = map_option HourFromTime tv"

definition getUTCMinutes :: "int option \<Rightarrow> int option" where
  "getUTCMinutes tv = map_option MinFromTime tv"

definition numberToString :: "int option \<Rightarrow> string" where
  "numberToString n = (case n of None \<Rightarrow> ''NaN'' | Some i \<Rightarrow> intToString i)"

subsection \<open>convertMountainTimeToUTC\<close>

definition convertMountainTimeToUTC :: "(string \<Rightarrow> int option) \<Rightarrow> string option \<Rightarrow> error + string" where
  "convertMountainTimeToUTC legacy dateStr =
     (case dateStr of
        None \<Rightarrow> Inl TypeError
      | Some ds \<Rightarrow>
          (let isoDateStr = replaceFirst (CHR '' '') (CHR ''T'') ds @ ''-07:00'';
               date = Date_parse legacy isoDateStr;
               year = getUTCFullYear date;
               month = padStart 2 (numberToString (map_option (\<lambda>m. m + 1) (getUTCMonth date)));
               day = padStart 2 (numberToString (getUTCDate date));
               hours = padStart 2 (numberToString (getUTCHours date));
               minutes = padStart 2 (numberToString (getUTCMinutes date))
           in Inr (numberToString year @ ''-'' @ month @ ''-'' @ day @ '' '' @ hours @ '':''
                   @ minutes @ '' UTC'')))"

subsection \<open>The swap filter\<close>

text \<open>
  \<^verbatim>\<open>!row["Order Type"].toLowerCase().includes("swap")\<close>: throws when the row has no
  order type.
\<close>

definition notSwap :: "jsobject \<Rightarrow> error + bool" where
  "notSwap row =
     (case row ''Order Type'' of
        None \<Rightarrow> Inl TypeError
      | Some ot \<Rightarrow> Inr (\<not> includesStr (toLowerCase ot) ''swap''))"

fun filteredData :: "jsobject list \<Rightarrow> error + jsobject list" where
  "filteredData [] = Inr []"
| "filteredData (row # data) =
     (case notSwap row of
        Inl e \<Rightarrow> Inl e
      | Inr keep \<Rightarrow>
          (case filteredData data of
             Inl e \<Rightarrow> Inl e
           | Inr rest \<Rightarrow> Inr (if keep then row # rest else rest)))"

subsection \<open>convertRow\<close>

text \<open>An object literal: the listed keys, each bound to a string or to \<^verbatim>\<open>undefined\<close>.\<close>

definition object :: "(string \<times> string option) list \<Rightarrow> jsobject" where
  "object kvs = (\<lambda>k. case map_of kvs k of None \<Rightarrow> None | Some v \<Rightarrow> v)"

text \<open>Truthiness of a string or \<^verbatim>\<open>undefined\<close>; \<^verbatim>\<open>v || ""\<close>; the placeholder test.\<close>

definition truthy :: "string option \<Rightarrow> bool" where
  "truthy v = (case v of None \<Rightarrow> False | Some s \<Rightarrow> s \<noteq> [])"

definition orEmpty :: "string option \<Rightarrow> string option" where
  "orEmpty v = (if truthy v then v else Some [])"

definition unlessPlaceholder :: "string option \<Rightarrow> string option" where
  "unlessPlaceholder v = (if truthy v \<and> v \<noteq> Some ''-'' then v else Some [])"

definition convertRow :: "(string \<Rightarrow> int option) \<Rightarrow> jsobject \<Rightarrow> error + jsobject" where
  "convertRow legacy row =
     (case convertMountainTimeToUTC legacy (row ''Order Date'') of
        Inl e \<Rightarrow> Inl e
      | Inr date \<Rightarrow>
          (case row ''Order Type'' of
             None \<Rightarrow> Inl TypeError
           | Some ot \<Rightarrow>
               (let orderType = toLowerCase ot;
                    txHash = orEmpty (row ''Transaction Hash'');
                    feeAmount = unlessPlaceholder (row ''Miner Fee'')
                in if includesStr orderType ''buy'' then
                     Inr (object
                       [(''Date'', Some date),
                        (''Sent Amount'', unlessPlaceholder (row ''Fiat Amount'')),
                        (''Sent Currency'', orEmpty (row ''Fiat Code'')),
                        (''Received Amount'', row ''Crypto Amount''),
                        (''Received Currency'', row ''Crypto Code''),
                        (''Fee Amount'', feeAmount),
                        (''Fee Currency'', orEmpty (row ''Crypto Code'')),
                        (''Net Worth Amount'', Some []),
                        (''Net Worth Currency'', Some []),
                        (''Label'', Some ''Buy''),
                        (''Description'', Some []),
                        (''TxHash'', txHash)])
                   else if includesStr orderType ''sell'' then
                     Inr (object
                       [(''Date'', Some date),
                        (''Sent Amount'', row ''Crypto Amount''),
                        (''Sent Currency'', row ''Crypto Code''),
                        (''Received Amount'', unlessPlaceholder (row ''Fiat Amount'')),
                        (''Received Currency'', orEmpty (row ''Fiat Code'')),
                        (''Fee Amount'', feeAmount),
                        (''Fee Currency'', orEmpty (row ''Crypto Code'')),
                        (''Net Worth Amount'', Some []),
                        (''Net Worth Currency'', Some []),
                        (''Label'', Some ''Sell''),
                        (''Description'', Some []),
                        (''TxHash'', txHash)])
                   else
                     Inr (object
                       [(''Date'', Some date),
                        (''Sent Amount'', unlessPlaceholder (row ''Fiat Amount'')),
                        (''Sent Currency'', orEmpty (row ''Fiat Code'')),
                        (''Received Amount'', row ''Crypto Amount''),
                        (''Received Currency'', row ''Crypto Code''),
                        (''Fee Amount'', feeAmount),
                        (''Fee Currency'', orEmpty (row ''Crypto Code'')),
                        (''Net Worth Amount'', Some []),
                        (''Net Worth Currency'', Some []),
                        (''Label'', Some ot),
                        (''Description'', Some []),
                        (''TxHash'', txHash)]))))"

text \<open>\<^verbatim>\<open>filteredData.map(convertRow)\<close>: the first row that throws ends the run.\<close>

fun convertedRows :: "(string \<Rightarrow> int option) \<Rightarrow> jsobject list \<Rightarrow> error + jsobject list" where
  "convertedRows legacy [] = Inr []"
| "convertedRows legacy (row # rows) =
     (case convertRow legacy row of
        Inl e \<Rightarrow> Inl e
      | Inr r \<Rightarrow>
          (case convertedRows legacy rows of
             Inl e \<Rightarrow> Inl e
           | Inr rs \<Rightarrow> Inr (r # rs)))"

subsection \<open>generateKoinlyCsv\<close>

definition headers :: "string list" where
  "headers =
     [''Date'', ''Sent Amount'', ''Sent Currency'', ''Received Amount'', ''Received Currency'',
      ''Fee Amount'', ''Fee Currency'', ''Net Worth Amount'', ''Net Worth Currency'', ''Label'',
      ''Description'', ''TxHash'']"

text \<open>
  The callback of \<^verbatim>\<open>headers.map\<close>, first on the rows that \<open>convertRow\<close> produces. Their
  property values are strings or \<^verbatim>\<open>undefined\<close>, so the test \<^verbatim>\<open>typeof value === "string"\<close>
  holds for every value that reaches it. Rows of arbitrary values follow below.
\<close>

definition rowValue :: "jsobject \<Rightarrow> string \<Rightarrow> string" where
  "rowValue row header =
     (let value = (case row header of None \<Rightarrow> [] | Some v \<Rightarrow> v)
      in if includesStr value '','' \<or> includesStr value [dquote]
         then [dquote] @ replaceQuotes value @ [dquote]
         else value)"

definition rowValues :: "jsobject \<Rightarrow> string list" where
  "rowValues row = map (rowValue row) headers"

text \<open>The \<^verbatim>\<open>forEach\<close> loop pushes one entry per row onto \<^verbatim>\<open>csvRows\<close>.\<close>

fun pushRows :: "string list \<Rightarrow> jsobject list \<Rightarrow> string list" where
  "pushRows csvRows [] = csvRows"
| "pushRows csvRows (row # rows) = pushRows (csvRows @ [join '','' (rowValues row)]) rows"

definition generateKoinlyCsv :: "jsobject list \<Rightarrow> string" where
  "generateKoinlyCsv rows = join [newline] (pushRows [join '','' headers] rows)"

text \<open>
  The serializer reads its rows through the cast \<^verbatim>\<open>row as any\<close>, so it is also defined on
  objects whose properties hold other values than strings. What it can observe of a value is
  whether it is \<^verbatim>\<open>undefined\<close> or \<^verbatim>\<open>null\<close>, whether it is a string, and what
  \<^verbatim>\<open>Array.prototype.join\<close> makes of it. \<open>JConvertible t\<close> is a number, a boolean, an array or
  another object, given by the text \<open>t\<close> that its conversion to a string yields; \<open>JSymbol\<close>
  is a Symbol, whose conversion to a string throws a \<^verbatim>\<open>TypeError\<close>. A row is an object; a missing
  key reads as \<open>JUndefined\<close>.
\<close>

datatype jsvalue = JUndefined | JNull | JString string | JConvertible string | JSymbol

type_synonym jsrow = "string \<Rightarrow> jsvalue"

text \<open>
  \<^verbatim>\<open>join\<close> on an array of values: \<^verbatim>\<open>undefined\<close> and \<^verbatim>\<open>null\<close> give the empty text, every
  other element is converted to a string, and the first conversion that throws ends the call.
\<close>

definition joinElement :: "jsvalue \<Rightarrow> error + string" where
  "joinElement v =
     (case v of
        JUndefined \<Rightarrow> Inr []
      | JNull \<Rightarrow> Inr []
      | JString s \<Rightarrow> Inr s
      | JConvertible t \<Rightarrow> Inr t
      | JSymbol \<Rightarrow> Inl TypeError)"

fun joinAny :: "string \<Rightarrow> jsvalue list \<Rightarrow> error + string" where
  "joinAny sep [] = Inr []"
| "joinAny sep [x] = joinElement x"
| "joinAny sep (x # y # ys) =
     (case joinElement x of
        Inl e \<Rightarrow> Inl e
      | Inr s \<Rightarrow> (case joinAny sep (y # ys) of Inl e \<Rightarrow> Inl e | Inr r \<Rightarrow> Inr (s @ sep @ r)))"

text \<open>
  The callback of \<^verbatim>\<open>headers.map\<close> with the test \<^verbatim>\<open>typeof value === "string"\<close>, the loop and
  the function on such rows.
\<close>

definition rowValueAny :: "jsrow \<Rightarrow> string \<Rightarrow> jsvalue" where
  "rowValueAny row header =
     (let value = (case row header of JUndefined \<Rightarrow> JString [] | JNull \<Rightarrow> JString [] | v \<Rightarrow> v)
      in case value of
           JString s \<Rightarrow>
             if includesStr s '','' \<or> includesStr s [dquote]
             then JString ([dquote] @ replaceQuotes s @ [dquote])
             else value
         | _ \<Rightarrow> value)"

fun pushRowsAny :: "string list \<Rightarrow> jsrow list \<Rightarrow> error + string list" where
  "pushRowsAny csvRows [] = Inr csvRows"
| "pushRowsAny csvRows (row # rows) =
     (case joinAny '','' (map (rowValueAny row) headers) of
        Inl e \<Rightarrow> Inl e
      | Inr line \<Rightarrow> pushRowsAny (csvRows @ [line]) rows)"

definition generateKoinlyCsvAny :: "jsrow list \<Rightarrow> error + string" where
  "generateKoinlyCsvAny rows =
     (case pushRowsAny [join '','' headers] rows of
        Inl e \<Rightarrow> Inl e
      | Inr csvRows \<Rightarrow> Inr (join [newline] csvRows))"

subsection \<open>The whole conversion\<close>

text \<open>The \<^verbatim>\<open>complete\<close> callback on parsed data: filter, convert, serialize.\<close>

definition coreConversion :: "(string \<Rightarrow> int option) \<Rightarrow> jsobject list \<Rightarrow> error + jsobject list" where
  "coreConversion legacy data =
     (case filteredData data of Inl e \<Rightarrow> Inl e | Inr fd \<Rightarrow> convertedRows legacy fd)"

definition complete :: "(string \<Rightarrow> int option) \<Rightarrow> jsobject list \<Rightarrow> error + string" where
  "complete legacy data =
     (case coreConversion legacy data of Inl e \<Rightarrow> Inl e | Inr rows \<Rightarrow> Inr (generateKoinlyCsv rows))"

subsection \<open>Reference notions and sample rows\<close>

text \<open>A record is a swap record when its order type, lower-cased, contains \<^verbatim>\<open>swap\<close>.\<close>

definition isSwapRecord :: "jsobject \<Rightarrow> bool" where
  "isSwapRecord row = (case row ''Order Type'' of None \<Rightarrow> False | Some ot \<Rightarrow> sublist ''swap'' (toLowerCase ot))"

text \<open>The text of a field with every double quote doubled.\<close>

definition doubled :: "string \<Rightarrow> string" where
  "doubled v = concat (map (\<lambda>c. if c = dquote then [dquote, dquote] else [c]) v)"

text \<open>The field \<^verbatim>\<open>Tom, "Bones"\<close>.\<close>

definition tomBones :: string where
  "tomBones = ''Tom, '' @ [dquote] @ ''Bones'' @ [dquote]"

text \<open>Sample rows: the buy order of the round-trip example, a sell order with the fiat placeholder, and a swap order.\<close>

definition exampleRow :: jsobject where
  "exampleRow = object
     [(''Transaction ID'', Some ''tx-1''), (''Order Type'', Some ''Buy''), (''Network'', Some ''Bitcoin''),
      (''Order Status'', Some ''Complete''), (''Order Date'', Some ''2024-01-15 10:00:00''),
      (''Fiat Amount'', Some ''100.00''), (''Fiat Code'', Some ''CAD''),
      (''Crypto Amount'', Some ''0.0021''), (''Crypto Code'', Some ''BTC''), (''Miner Fee'', Some ''-''),
      (''Rate'', Some ''47619.05''), (''Receiving Address'', Some ''bc1qexample''),
      (''Transaction Hash'', Some ''abc123'')]"

definition sellRow :: jsobject where
  "sellRow = exampleRow(''Order Type'' \<mapsto> ''Bitcoin SELL'', ''Fiat Amount'' \<mapsto> ''-'', ''Miner Fee'' \<mapsto> ''0.00001'')"

definition swapRow :: jsobject where
  "swapRow = exampleRow(''Order Type'' \<mapsto> ''Swap BTC/ETH'')"

text \<open>
  Two rows are alike for the conversion when the filter and \<open>convertRow\<close> give the same
  results on them; they are alike for the document when the filter agrees and the converted
  rows emit the same twelve values. \<open>emitted\<close> is what the serializer writes for one value.
\<close>

definition sameConversion :: "(string \<Rightarrow> int option) \<Rightarrow> jsobject \<Rightarrow> jsobject \<Rightarrow> bool" where
  "sameConversion legacy r1 r2 = (notSwap r1 = notSwap r2 \<and> convertRow legacy r1 = convertRow legacy r2)"

definition emitted :: "string option \<Rightarrow> string" where
  "emitted v = rowValue (\<lambda>_. v) []"

definition sameCsv :: "(string \<Rightarrow> int option) \<Rightarrow> jsobject \<Rightarrow> jsobject \<Rightarrow> bool" where
  "sameCsv legacy r1 r2 =
     (notSwap r1 = notSwap r2
      \<and> rel_sum (=) (\<lambda>o1 o2. rowValues o1 = rowValues o2) (convertRow legacy r1) (convertRow legacy r2))"

text \<open>
  The calendar reading of a timestamp \<^verbatim>\<open>YYYY-MM-DD HH:mm:ss\<close>: its six numeric fields, what makes
  it well formed (the separators, digits everywhere else, a day that exists, hours up to 23, minutes
  and seconds up to 59), and the date and hour seven hours later, carried over the end of the day,
  of the month and of the year.
\<close>

definition validDate :: "int \<Rightarrow> int \<Rightarrow> int \<Rightarrow> bool" where
  "validDate y m d = (1 \<le> m \<and> m \<le> 12 \<and> 1 \<le> d \<and> d \<le> daysInMonth y m)"

definition nextDay :: "int \<times> int \<times> int \<Rightarrow> int \<times> int \<times> int" where
  "nextDay ymd =
     (case ymd of (y, m, d) \<Rightarrow>
        if d < daysInMonth y m then (y, m, d + 1)
        else if m < 12 then (y, m + 1, 1)
        else (y + 1, 1, 1))"

definition plusSevenHours :: "int \<times> int \<times> int \<times> int \<Rightarrow> int \<times> int \<times> int \<times> int" where
  "plusSevenHours ymdh =
     (case ymdh of (y, m, d, h) \<Rightarrow>
        if h + 7 < 24 then (y, m, d, h + 7)
        else (case nextDay (y, m, d) of (y', m', d') \<Rightarrow> (y', m', d', h + 7 - 24)))"

definition tsYear :: "string \<Rightarrow> int" where "tsYear s = number (substring s 0 4)"

definition tsMonth :: "string \<Rightarrow> int" where "tsMonth s = number (substring s 5 7)"

definition tsDay :: "string \<Rightarrow> int" where "tsDay s = number (substring s 8 10)"

definition tsHour :: "string \<Rightarrow> int" where "tsHour s = number (substring s 11 13)"

definition tsMinute :: "string \<Rightarrow> int" where "tsMinute s = number (substring s 14 16)"

definition tsSecond :: "string \<Rightarrow> int" where "tsSecond s = number (substring s 17 19)"

definition wellFormedTimestamp :: "string \<Rightarrow> bool" where
  "wellFormedTimestamp s =
     (length s = 19 \<and> s ! 4 = CHR ''-'' \<and> s ! 7 = CHR ''-'' \<and> s ! 10 = CHR '' ''
      \<and> s ! 13 = CHR '':'' \<and> s ! 16 = CHR '':''
      \<and> list_all (\<lambda>i. isDigit (s ! i)) [0, 1, 2, 3, 5, 6, 8, 9, 11, 12, 14, 15, 17, 18]
      \<and> validDate (tsYear s) (tsMonth s) (tsDay s)
      \<and> tsHour s \<le> 23 \<and> tsMinute s \<le> 59 \<and> tsSecond s \<le> 59)"

text \<open>
  The text \<^verbatim>\<open>YYYY-MM-DD HH:mm UTC\<close> of the shifted timestamp; the seconds are dropped. The
  rendering of the year is a parameter: \<open>fourDigits\<close> pads to four digits.
\<close>

definition twoDigits :: "int \<Rightarrow> string" where
  "twoDigits n = [digitChar (nat n div 10), digitChar (nat n mod 10)]"

definition fourDigits :: "int \<Rightarrow> string" where
  "fourDigits n =
     [digitChar (nat n div 1000), digitChar (nat n div 100 mod 10), digitChar (nat n div 10 mod 10),
      digitChar (nat n mod 10)]"

definition shiftedText :: "(int \<Rightarrow> string) \<Rightarrow> string \<Rightarrow> string" where
  "shiftedText yearText s =
     (case plusSevenHours (tsYear s, tsMonth s, tsDay s, tsHour s) of (y, m, d, h) \<Rightarrow>
        yearText y @ ''-'' @ twoDigits m @ ''-'' @ twoDigits d @ '' '' @ twoDigits h @ '':''
        @ twoDigits (tsMinute s) @ '' UTC'')"

text \<open>
  What the serializer is expected to write. A string field is quoted by the rule of the CSV
  format used here; \<open>emittedValue\<close> is the text of one value, \<open>csvLine\<close> the twelve texts of a
  row in header order with a comma between them, \<open>headerLine\<close> the fixed header. \<open>asValues\<close>
  reads a row of strings as a row of values.
\<close>

definition asValues :: "jsobject \<Rightarrow> jsrow" where
  "asValues row = (\<lambda>k. case row k of None \<Rightarrow> JUndefined | Some s \<Rightarrow> JString s)"

definition csvField :: "string \<Rightarrow> string" where
  "csvField s = (if CHR '','' \<in> set s \<or> dquote \<in> set s then dquote # doubled s @ [dquote] else s)"

definition emittedValue :: "jsvalue \<Rightarrow> string" where
  "emittedValue v =
     (case v of
        JUndefined \<Rightarrow> []
      | JNull \<Rightarrow> []
      | JString s \<Rightarrow> csvField s
      | JConvertible t \<Rightarrow> t
      | JSymbol \<Rightarrow> [])"

definition headerLine :: string where
  "headerLine = ''Date,Sent Amount,Sent Currency,Received Amount,Received Currency,Fee Amount,Fee Currency,Net Worth Amount,Net Worth Currency,Label,Description,TxHash''"

definition line12 :: "(string \<Rightarrow> string) \<Rightarrow> string" where
  "line12 f =
     f ''Date'' @ '','' @ f ''Sent Amount'' @ '','' @ f ''Sent Currency'' @ '','' @ f ''Received Amount''
     @ '','' @ f ''Received Currency'' @ '','' @ f ''Fee Amount'' @ '','' @ f ''Fee Currency'' @ '',''
     @ f ''Net Worth Amount'' @ '','' @ f ''Net Worth Currency'' @ '','' @ f ''Label'' @ '',''
     @ f ''Description'' @ '','' @ f ''TxHash''"

definition csvLine :: "jsrow \<Rightarrow> string" where
  "csvLine row = line12 (\<lambda>h. emittedValue (row h))"

text \<open>The lines of a text: the pieces between its newline characters.\<close>

primrec splitLines :: "string \<Rightarrow> string list" where
  "splitLines [] = [[]]"
| "splitLines (c # s) =
     (if c = newline then [] # splitLines s
      else (case splitLines s of [] \<Rightarrow> [[c]] | l # ls \<Rightarrow> (c # l) # ls))"

text \<open>
  A well-formed target record holds a string under each of the twelve headers; it has no line
  break when none of these strings contains a newline character; a row has no symbol when none
  of the twelve values is a Symbol.
\<close>

definition wellFormedTargetRecord :: "jsrow \<Rightarrow> bool" where
  "wellFormedTargetRecord row = list_all (\<lambda>h. case row h of JString s \<Rightarrow> True | _ \<Rightarrow> False) headers"

definition noLineBreak :: "jsrow \<Rightarrow> bool" where
  "noLineBreak row = list_all (\<lambda>h. case row h of JString s \<Rightarrow> newline \<notin> set s | _ \<Rightarrow> True) headers"

definition noSymbol :: "jsrow \<Rightarrow> bool" where
  "noSymbol row = list_all (\<lambda>h. row h \<noteq> JSymbol) headers"

text \<open>
  Sample rows for the serializer: a record of plain strings, a record whose hash ends in a
  newline with the document it yields, an object without properties, one with a number, a
  \<^verbatim>\<open>null\<close> and a string holding a comma, and one holding a Symbol.
\<close>

definition plainRecord :: jsrow where
  "plainRecord =
     (\<lambda>k. JString [])(''Date'' := JString ''2024-01-15 17:00 UTC'', ''Sent Amount'' := JString ''100.00'',
        ''Sent Currency'' := JString ''CAD'', ''Received Amount'' := JString ''0.0021'',
        ''Received Currency'' := JString ''BTC'', ''Fee Currency'' := JString ''BTC'',
        ''Label'' := JString ''Buy'', ''TxHash'' := JString ''abc123'')"

definition lineBreakRecord :: jsrow where
  "lineBreakRecord =
     (\<lambda>k. JString [])(''Date'' := JString ''2024-01-15 17:00 UTC'', ''Label'' := JString ''Buy'',
                       ''TxHash'' := JString (''abc'' @ [newline]))"

definition lineBreakDocument :: string where
  "lineBreakDocument =
     ''Date,Sent Amount,Sent Currency,Received Amount,Received Currency,Fee Amount,Fee Currency,Net Worth Amount,Net Worth Currency,Label,Description,TxHash''
     @ [newline] @ ''2024-01-15 17:00 UTC,,,,,,,,,Buy,,abc'' @ [newline]"




section \<open>Properties\<close>

subsection \<open>Strings\<close>

lemma startsWith_prefix: "startsWith s t = prefix t s"
  by (induction t arbitrary: s) (auto split: list.splits)

lemma includesStr_sublist: "includesStr s t = sublist t s"
  by (induction s) (auto simp: startsWith_prefix sublist_Cons_right)

lemma includesStr_char: "includesStr s [c] = (c \<in> set s)"
  by (induction s) (auto split: list.splits)

lemma replaceQuotes_concat:
  "replaceQuotes s = concat (map (\<lambda>c. if c = dquote then [dquote, dquote] else [c]) s)"
  by (induction s) auto

lemma join_Cons: "join sep (x # xs) = x @ concat (map (\<lambda>y. sep @ y) xs)"
  by (induction xs arbitrary: x) auto

subsection \<open>The calendar arithmetic of the Date object\<close>

text \<open>
  The days up to a year grow by the length of the year, and the year computed for a day is the one whose days contain it.
\<close>

lemma div_step:
  fixes a c :: int
  assumes "0 < c"
  shows "(a + 1) div c = a div c + (if (a + 1) mod c = 0 then 1 else 0)"
proof -
  have a: "a = c * (a div c) + a mod c" by simp
  have r: "0 \<le> a mod c" "a mod c < c" using assms by simp_all
  show ?thesis
  proof (cases "a mod c + 1 = c")
    case True
    have "c * (a div c + 1) = c * (a div c) + c" by (simp add: algebra_simps)
    with True a have "a + 1 = c * (a div c + 1)" by linarith
    then have "(a + 1) div c = a div c + 1" "(a + 1) mod c = 0"
      using assms by (metis nonzero_mult_div_cancel_left less_irrefl, metis mod_mult_self1_is_0)
    then show ?thesis by simp
  next
    case False
    then have lt: "a mod c + 1 < c" using r by simp
    have "a + 1 = c * (a div c) + (a mod c + 1)" using a by linarith
    then have "(a + 1) div c = a div c" "(a + 1) mod c = a mod c + 1"
      using lt r by (metis int_div_pos_eq add_nonneg_nonneg zero_le_one, metis int_mod_pos_eq add_nonneg_nonneg zero_le_one)
    then show ?thesis using r by simp
  qed
qed

lemma mod_shift:
  fixes y k c :: int
  shows "c dvd k \<Longrightarrow> ((y - k) mod c = 0) = (y mod c = 0)"
  by (simp add: mod_eq_0_iff_dvd dvd_diff_left_iff)

lemma leap_implies:
  fixes y :: int
  shows "y mod 100 = 0 \<Longrightarrow> y mod 4 = 0" "y mod 400 = 0 \<Longrightarrow> y mod 100 = 0"
proof -
  have "(4::int) dvd 100" "(100::int) dvd 400" by simp_all
  then show "y mod 100 = 0 \<Longrightarrow> y mod 4 = 0" "y mod 400 = 0 \<Longrightarrow> y mod 100 = 0"
    by (meson dvd_trans mod_eq_0_iff_dvd)+
qed

lemma DayFromYear_Suc: "DayFromYear (y + 1) = DayFromYear y + DaysInYear y"
proof -
  define a b c :: int where "a = (if y mod 4 = 0 then 1 else 0)"
    and "b = (if y mod 100 = 0 then 1 else 0)" and "c = (if y mod 400 = 0 then 1 else 0)"
  have "(y - 1969 + 1) div 4 = (y - 1969) div 4 + (if (y - 1969 + 1) mod 4 = 0 then 1 else 0)"
    by (rule div_step) simp
  moreover have "((y - 1968) mod 4 = 0) = (y mod 4 = 0)" by (rule mod_shift) simp
  ultimately have f4: "(y - 1968) div 4 = (y - 1969) div 4 + a" by (simp add: a_def)
  have "(y - 1901 + 1) div 100 = (y - 1901) div 100 + (if (y - 1901 + 1) mod 100 = 0 then 1 else 0)"
    by (rule div_step) simp
  moreover have "((y - 1900) mod 100 = 0) = (y mod 100 = 0)" by (rule mod_shift) simp
  ultimately have f100: "(y - 1900) div 100 = (y - 1901) div 100 + b" by (simp add: b_def)
  have "(y - 1601 + 1) div 400 = (y - 1601) div 400 + (if (y - 1601 + 1) mod 400 = 0 then 1 else 0)"
    by (rule div_step) simp
  moreover have "((y - 1600) mod 400 = 0) = (y mod 400 = 0)" by (rule mod_shift) simp
  ultimately have f400: "(y - 1600) div 400 = (y - 1601) div 400 + c" by (simp add: c_def)
  have "DayFromYear (y + 1)
        = 365 * (y - 1969) + (y - 1968) div 4 - (y - 1900) div 100 + (y - 1600) div 400"
    by (simp add: DayFromYear_def)
  also have "\<dots> = DayFromYear y + (365 + a - b + c)"
    unfolding f4 f100 f400 DayFromYear_def by (simp add: algebra_simps)
  finally have e: "DayFromYear (y + 1) = DayFromYear y + (365 + a - b + c)" .
  have "DaysInYear y = 365 + a - b + c"
  proof (cases "y mod 4 = 0")
    case False
    with leap_implies [of y] show ?thesis by (auto simp: DaysInYear_def a_def b_def c_def)
  next
    case True
    with leap_implies [of y] show ?thesis
      by (cases "y mod 100 = 0"; cases "y mod 400 = 0") (simp_all add: DaysInYear_def a_def b_def c_def)
  qed
  with e show ?thesis by simp
qed

lemma div_bounds:
  fixes a c :: int
  assumes "0 < c"
  shows "c * (a div c) \<le> a" "a < c * (a div c) + c"
proof -
  have "a = c * (a div c) + a mod c" by simp
  moreover have "0 \<le> a mod c" "a mod c < c" using assms by simp_all
  ultimately show "c * (a div c) \<le> a" "a < c * (a div c) + c" by linarith+
qed

lemma DaysInYear_bounds: "365 \<le> DaysInYear y" "DaysInYear y \<le> 366"
  by (simp_all add: DaysInYear_def)

lemma DayFromYear_bounds:
  "146097 * y - 287811596 \<le> 400 * DayFromYear y"
  "400 * DayFromYear y \<le> 146097 * y - 287810501"
proof -
  define q4 q100 q400 where "q4 = (y - 1969) div 4" and "q100 = (y - 1901) div 100"
    and "q400 = (y - 1601) div 400"
  have b: "4 * q4 \<le> y - 1969" "y - 1969 < 4 * q4 + 4"
    "100 * q100 \<le> y - 1901" "y - 1901 < 100 * q100 + 100"
    "400 * q400 \<le> y - 1601" "y - 1601 < 400 * q400 + 400"
    unfolding q4_def q100_def q400_def by (simp_all only: div_bounds zero_less_numeral)
  have "DayFromYear y = 365 * y - 719050 + q4 - q100 + q400"
    by (simp add: DayFromYear_def q4_def q100_def q400_def)
  then have d: "400 * DayFromYear y = 146000 * y - 287620000 + 400 * q4 - 400 * q100 + 400 * q400"
    by simp
  from b d show "146097 * y - 287811596 \<le> 400 * DayFromYear y" by linarith
  from b d show "400 * DayFromYear y \<le> 146097 * y - 287810501" by linarith
qed

lemma YearFromDay_unique:
  assumes "DayFromYear y \<le> d" and "d < DayFromYear (y + 1)"
  shows "YearFromDay d = y"
proof -
  define k where "k = (400 * d) div 146097"
  have kb: "146097 * k \<le> 400 * d" "400 * d < 146097 * k + 146097"
    unfolding k_def by (simp_all only: div_bounds zero_less_numeral)
  define z where "z = y + 1"
  have "146097 * z - 287811596 \<le> 400 * DayFromYear z" "400 * DayFromYear z \<le> 146097 * z - 287810501"
    by (rule DayFromYear_bounds)+
  moreover have "146097 * z = 146097 * y + 146097" by (simp add: z_def)
  ultimately have zb: "400 * DayFromYear (y + 1) \<le> 146097 * y - 287664404"
    unfolding z_def by linarith
  have "y - 1971 \<le> k"
    using kb(2) assms(1) DayFromYear_bounds(1) [of y] by linarith
  moreover have "k \<le> y - 1969"
    using kb(1) assms(2) zb by linarith
  ultimately have "y - 1 \<le> 1970 + k" "1970 + k \<le> y + 1" by linarith+
  moreover define e where "e = 1970 + k"
  ultimately consider "e = y - 1" | "e = y" | "e = y + 1" by linarith
  moreover have u: "YearFromDay d =
      (if DayFromYear (e + 1) \<le> d then e + 1 else if d < DayFromYear e then e - 1 else e)"
    by (simp add: YearFromDay_def k_def e_def Let_def)
  moreover have "DayFromYear (y + 1) \<le> DayFromYear (y + 1 + 1)"
    using DayFromYear_Suc [of "y + 1"] DaysInYear_bounds(1) [of "y + 1"] by linarith
  ultimately show ?thesis using assms by cases auto
qed

text \<open>
  A valid date is read back from its day number: year, month and day of the month.
\<close>

lemma leap_cases: "leap y = 0 \<or> leap y = 1"
  by (simp add: leap_def)

lemma DaysInYear_leap: "DaysInYear y = 365 + leap y"
  by (simp add: leap_def DaysInYear_def)

lemma month_cases:
  fixes m :: int
  assumes "1 \<le> m" "m \<le> 12"
  obtains "m = 1" | "m = 2" | "m = 3" | "m = 4" | "m = 5" | "m = 6"
    | "m = 7" | "m = 8" | "m = 9" | "m = 10" | "m = 11" | "m = 12"
proof -
  from assms have "m = 1 \<or> m = 2 \<or> m = 3 \<or> m = 4 \<or> m = 5 \<or> m = 6
      \<or> m = 7 \<or> m = 8 \<or> m = 9 \<or> m = 10 \<or> m = 11 \<or> m = 12"
    by arith
  with that show thesis by blast
qed

lemma MakeDay_valid:
  assumes "validDate y m d"
  shows "MakeDay y (m - 1) d = DayFromYear y + daysBeforeMonth (m - 1) (leap y) + d - 1"
proof -
  from assms have "0 \<le> m - 1" "m - 1 < 12" by (simp_all add: validDate_def)
  then have "(m - 1) div 12 = 0" "(m - 1) mod 12 = m - 1" by simp_all
  then show ?thesis by (simp add: MakeDay_def Let_def)
qed

lemma dayWithinYear_bounds:
  assumes "validDate y m d"
  shows "0 \<le> daysBeforeMonth (m - 1) (leap y) + d - 1"
    and "daysBeforeMonth (m - 1) (leap y) + d - 1 < DaysInYear y"
proof -
  from assms have m: "1 \<le> m" "m \<le> 12" and d: "1 \<le> d" "d \<le> daysInMonth y m"
    by (simp_all add: validDate_def)
  from m show "0 \<le> daysBeforeMonth (m - 1) (leap y) + d - 1"
    using d leap_cases [of y] by (cases rule: month_cases) (auto simp: daysBeforeMonth_def)
  from m show "daysBeforeMonth (m - 1) (leap y) + d - 1 < DaysInYear y"
    using d leap_cases [of y]
    by (cases rule: month_cases) (auto simp: daysBeforeMonth_def daysInMonth_def DaysInYear_leap)
qed

lemma Day_MakeDate:
  assumes "0 \<le> tod" "tod < msPerDay"
  shows "Day (MakeDate day tod) = day"
proof -
  have "MakeDate day tod = msPerDay * day + tod" by (simp add: MakeDate_def)
  with assms show ?thesis unfolding Day_def by (metis int_div_pos_eq)
qed

lemma date_roundtrip:
  assumes v: "validDate y m d" and t: "0 \<le> tod" "tod < msPerDay"
  shows "YearFromTime (MakeDate (MakeDay y (m - 1) d) tod) = y"
    and "MonthFromTime (MakeDate (MakeDay y (m - 1) d) tod) = m - 1"
    and "DateFromTime (MakeDate (MakeDay y (m - 1) d) tod) = d"
proof -
  let ?t = "MakeDate (MakeDay y (m - 1) d) tod"
  let ?w = "daysBeforeMonth (m - 1) (leap y) + d - 1"
  have day: "Day ?t = DayFromYear y + ?w"
    using Day_MakeDate [OF t] MakeDay_valid [OF v] by simp
  have "DayFromYear y \<le> Day ?t" "Day ?t < DayFromYear (y + 1)"
    using dayWithinYear_bounds [OF v] day DayFromYear_Suc [of y] by linarith+
  then show yr: "YearFromTime ?t = y"
    unfolding YearFromTime_def by (rule YearFromDay_unique)
  then have w: "DayWithinYear ?t = ?w" and l: "InLeapYear ?t = leap y"
    by (simp_all add: DayWithinYear_def InLeapYear_def day)
  from v have m: "1 \<le> m" "m \<le> 12" and d: "1 \<le> d" "d \<le> daysInMonth y m"
    by (simp_all add: validDate_def)
  from m show mo: "MonthFromTime ?t = m - 1"
    using d leap_cases [of y] unfolding MonthFromTime_def w l Let_def
    by (cases rule: month_cases) (auto simp: daysBeforeMonth_def daysInMonth_def)
  from m show "DateFromTime ?t = d"
    using d leap_cases [of y] unfolding DateFromTime_def mo w l Let_def
    by (cases rule: month_cases) (auto simp: daysBeforeMonth_def daysInMonth_def)
qed

lemma nextDay_valid:
  assumes "validDate y m d" and "nextDay (y, m, d) = (y', m', d')"
  shows "validDate y' m' d'" and "MakeDay y' (m' - 1) d' = MakeDay y (m - 1) d + 1"
proof -
  from assms(1) have m: "1 \<le> m" "m \<le> 12" and d: "1 \<le> d" "d \<le> daysInMonth y m"
    by (simp_all add: validDate_def)
  have dim: "1 \<le> daysInMonth yy mm" for yy mm
    using leap_cases [of yy] by (auto simp: daysInMonth_def)
  show v': "validDate y' m' d'"
    using assms m d dim [of y "m + 1"] dim [of "y + 1" 1]
    by (auto simp: nextDay_def validDate_def split: if_splits)
  show "MakeDay y' (m' - 1) d' = MakeDay y (m - 1) d + 1"
  proof (cases "d < daysInMonth y m")
    case True
    with assms(2) have "y' = y" "m' = m" "d' = d + 1" by (simp_all add: nextDay_def)
    with MakeDay_valid [OF assms(1)] MakeDay_valid [OF v'] show ?thesis by simp
  next
    case False
    with d have de: "d = daysInMonth y m" by simp
    show ?thesis
    proof (cases "m < 12")
      case True
      with False assms(2) have e: "y' = y" "m' = m + 1" "d' = 1" by (simp_all add: nextDay_def)
      from m have "daysBeforeMonth m (leap y) = daysBeforeMonth (m - 1) (leap y) + daysInMonth y m"
        using True by (cases rule: month_cases) (auto simp: daysBeforeMonth_def daysInMonth_def)
      with MakeDay_valid [OF assms(1)] MakeDay_valid [OF v'] e de show ?thesis by simp
    next
      case False
      with m have m12: "m = 12" by simp
      with \<open>\<not> d < daysInMonth y m\<close> assms(2) have e: "y' = y + 1" "m' = 1" "d' = 1"
        by (simp_all add: nextDay_def)
      from m12 de have "d = 31" by (simp add: daysInMonth_def)
      with MakeDay_valid [OF assms(1)] MakeDay_valid [OF v'] e m12 DayFromYear_Suc [of y]
      show ?thesis by (simp add: daysBeforeMonth_def DaysInYear_leap)
    qed
  qed
qed

text \<open>
  Hours and minutes within the day, and the seven hours of the offset.
\<close>

lemma time_fields:
  assumes "0 \<le> H" "H < 24" "0 \<le> mi" "mi < 60" "0 \<le> sec" "sec < 60"
  shows "0 \<le> MakeTime H mi sec 0" and "MakeTime H mi sec 0 < msPerDay"
    and "HourFromTime (MakeDate day (MakeTime H mi sec 0)) = H"
    and "MinFromTime (MakeDate day (MakeTime H mi sec 0)) = mi"
proof -
  let ?t = "MakeDate day (MakeTime H mi sec 0)"
  from assms show "0 \<le> MakeTime H mi sec 0" "MakeTime H mi sec 0 < msPerDay"
    by (simp_all add: MakeTime_def msPerHour_def msPerMinute_def msPerSecond_def msPerDay_def)
  have "?t = 3600000 * (24 * day + H) + (60000 * mi + 1000 * sec)"
    by (simp add: MakeDate_def MakeTime_def msPerHour_def msPerMinute_def msPerSecond_def msPerDay_def)
  moreover from assms have "0 \<le> 60000 * mi + 1000 * sec" "60000 * mi + 1000 * sec < 3600000"
    by simp_all
  ultimately have "?t div 3600000 = 24 * day + H" by (metis int_div_pos_eq)
  moreover from assms have "(24 * day + H) mod 24 = H" by (metis int_mod_pos_eq)
  ultimately show "HourFromTime ?t = H" by (simp add: HourFromTime_def msPerHour_def)
  have "?t = 60000 * (60 * (24 * day + H) + mi) + 1000 * sec"
    by (simp add: MakeDate_def MakeTime_def msPerHour_def msPerMinute_def msPerSecond_def msPerDay_def)
  moreover from assms have "0 \<le> 1000 * sec" "1000 * sec < 60000" by simp_all
  ultimately have "?t div 60000 = 60 * (24 * day + H) + mi" by (metis int_div_pos_eq)
  moreover from assms have "(60 * (24 * day + H) + mi) mod 60 = mi" by (metis int_mod_pos_eq)
  ultimately show "MinFromTime ?t = mi" by (simp add: MinFromTime_def msPerMinute_def)
qed

lemma add_seven_hours:
  "h + 7 < 24 \<Longrightarrow>
     MakeDate day (MakeTime h mi sec 0) + 7 * msPerHour = MakeDate day (MakeTime (h + 7) mi sec 0)"
  "\<not> h + 7 < 24 \<Longrightarrow>
     MakeDate day (MakeTime h mi sec 0) + 7 * msPerHour = MakeDate (day + 1) (MakeTime (h + 7 - 24) mi sec 0)"
  by (simp_all add: MakeDate_def MakeTime_def msPerHour_def msPerDay_def algebra_simps)

lemma plusSevenHours_valid:
  assumes v: "validDate y m d" and h: "0 \<le> h" "h \<le> 23"
    and p: "plusSevenHours (y, m, d, h) = (y', m', d', h')"
  shows "validDate y' m' d'" and "0 \<le> h'" and "h' < 24" and "y \<le> y'" and "y' \<le> y + 1"
    and "MakeDate (MakeDay y (m - 1) d) (MakeTime h mi sec 0) + 7 * msPerHour
         = MakeDate (MakeDay y' (m' - 1) d') (MakeTime h' mi sec 0)"
proof -
  have "validDate y' m' d' \<and> 0 \<le> h' \<and> h' < 24 \<and> y \<le> y' \<and> y' \<le> y + 1
     \<and> MakeDate (MakeDay y (m - 1) d) (MakeTime h mi sec 0) + 7 * msPerHour
         = MakeDate (MakeDay y' (m' - 1) d') (MakeTime h' mi sec 0)"
  proof (cases "h + 7 < 24")
    case True
    with p have "y' = y" "m' = m" "d' = d" "h' = h + 7" by (simp_all add: plusSevenHours_def)
    with v h True show ?thesis by (simp add: add_seven_hours)
  next
    case False
    obtain a b c where n: "nextDay (y, m, d) = (a, b, c)" by (cases "nextDay (y, m, d)") auto
    with False p have e: "y' = a" "m' = b" "d' = c" "h' = h + 7 - 24"
      by (simp_all add: plusSevenHours_def)
    from n have "y \<le> a" "a \<le> y + 1" by (auto simp: nextDay_def split: if_splits)
    with nextDay_valid [OF v n] e h False show ?thesis by (simp add: add_seven_hours)
  qed
  then show "validDate y' m' d'" and "0 \<le> h'" and "h' < 24" and "y \<le> y'" and "y' \<le> y + 1"
    and "MakeDate (MakeDay y (m - 1) d) (MakeTime h mi sec 0) + 7 * msPerHour
         = MakeDate (MakeDay y' (m' - 1) d') (MakeTime h' mi sec 0)"
    by simp_all
qed

lemma TimeClip_in_range:
  assumes v: "validDate y m d" and y: "0 \<le> y" "y \<le> 10000" and t: "0 \<le> tod" "tod < msPerDay"
  shows "TimeClip (MakeDate (MakeDay y (m - 1) d) tod) = Some (MakeDate (MakeDay y (m - 1) d) tod)"
proof -
  let ?w = "daysBeforeMonth (m - 1) (leap y) + d - 1"
  have w: "0 \<le> ?w" "?w < 366"
    using dayWithinYear_bounds [OF v] DaysInYear_bounds(2) [of y] by linarith+
  have "- 719529 \<le> DayFromYear y" "DayFromYear y \<le> 2932898"
    using DayFromYear_bounds [of y] y by linarith+
  with w have "- 719529 \<le> MakeDay y (m - 1) d" "MakeDay y (m - 1) d \<le> 2933264"
    unfolding MakeDay_valid [OF v] by linarith+
  with t have "\<bar>MakeDate (MakeDay y (m - 1) d) tod\<bar> \<le> 8640000000000000"
    unfolding MakeDate_def msPerDay_def by linarith
  then show ?thesis by (simp add: TimeClip_def)
qed

text \<open>
  Decimal rendering and padding.
\<close>

lemma natToString_one: "n < 10 \<Longrightarrow> natToString n = [digitChar n]"
  by (simp add: natToString.simps)

lemma natToString_two: "10 \<le> n \<Longrightarrow> n < 100 \<Longrightarrow> natToString n = [digitChar (n div 10), digitChar (n mod 10)]"
  by (subst natToString.simps) (simp add: natToString_one)

lemma natToString_three:
  "100 \<le> n \<Longrightarrow> n < 1000 \<Longrightarrow>
   natToString n = [digitChar (n div 100), digitChar (n div 10 mod 10), digitChar (n mod 10)]"
  by (subst natToString.simps) (simp add: natToString_two div_mult2_eq [symmetric])

lemma natToString_four:
  "1000 \<le> n \<Longrightarrow> n < 10000 \<Longrightarrow>
   natToString n = [digitChar (n div 1000), digitChar (n div 100 mod 10), digitChar (n div 10 mod 10),
                    digitChar (n mod 10)]"
  by (subst natToString.simps) (simp add: natToString_three div_mult2_eq [symmetric])

lemma digitChar_0: "digitChar 0 = CHR ''0''"
  by code_simp

lemma pad_twoDigits:
  assumes "0 \<le> n" "n < 100"
  shows "padStart 2 (numberToString (Some n)) = twoDigits n"
proof (cases "n < 10")
  case True
  with assms have "nat n < 10" by simp
  then have "natToString (nat n) = [digitChar (nat n)]" by (rule natToString_one)
  moreover have "nat n div 10 = 0" "nat n mod 10 = nat n" using \<open>nat n < 10\<close> by simp_all
  ultimately show ?thesis using assms
    by (simp add: padStart_def numberToString_def intToString_def twoDigits_def digitChar_0)
next
  case False
  with assms have "10 \<le> nat n" "nat n < 100" by simp_all
  then have "natToString (nat n) = [digitChar (nat n div 10), digitChar (nat n mod 10)]"
    by (rule natToString_two)
  then show ?thesis using assms
    by (simp add: padStart_def numberToString_def intToString_def twoDigits_def)
qed

lemma year_fourDigits:
  assumes "1000 \<le> y" "y \<le> 9999"
  shows "numberToString (Some y) = fourDigits y"
proof -
  from assms have "1000 \<le> nat y" "nat y < 10000" by simp_all
  then have "natToString (nat y) = fourDigits y" unfolding fourDigits_def by (rule natToString_four)
  with assms show ?thesis by (simp add: numberToString_def intToString_def)
qed

text \<open>
  Reading the nineteen characters of a well-formed timestamp.
\<close>

lemma upt_19: "[0..<19] = [0, 1, 2, 3, 4, 5, 6, 7, 8, 9, 10, 11, 12, 13, 14, 15, 16, 17, 18]"
  by code_simp

lemma list_19:
  assumes "length s = 19"
  shows "s = [s ! 0, s ! 1, s ! 2, s ! 3, s ! 4, s ! 5, s ! 6, s ! 7, s ! 8, s ! 9, s ! 10,
              s ! 11, s ! 12, s ! 13, s ! 14, s ! 15, s ! 16, s ! 17, s ! 18]"
proof -
  have "s = map ((!) s) [0..<length s]" by (simp add: map_nth)
  then have "s = map ((!) s) [0..<19]" by (simp only: assms)
  then show ?thesis unfolding upt_19 by simp
qed

lemma isDigit_not_space: "isDigit c \<Longrightarrow> c \<noteq> CHR '' ''"
  by (auto simp: isDigit_def)

lemma digitVal_bounds: "isDigit c \<Longrightarrow> 0 \<le> digitVal c \<and> digitVal c \<le> 9"
  by (auto simp: isDigit_def digitVal_def)

lemma isDigit_literals: "isDigit (CHR ''0'')" "isDigit (CHR ''7'')"
  by (simp_all add: isDigit_def)

lemma digitVal_literals: "digitVal (CHR ''0'') = 0" "digitVal (CHR ''7'') = 7"
  by (simp_all add: digitVal_def)

lemma number_two: "number [a, b] = 10 * digitVal a + digitVal b"
  by (simp add: number_def)

lemma number_four: "number [a, b, c, d] = 1000 * digitVal a + 100 * digitVal b + 10 * digitVal c + digitVal d"
  by (simp add: number_def)

lemma parse_explicit:
  assumes dg: "isDigit y1" "isDigit y2" "isDigit y3" "isDigit y4" "isDigit m1" "isDigit m2"
      "isDigit d1" "isDigit d2" "isDigit h1" "isDigit h2" "isDigit n1" "isDigit n2"
      "isDigit s1" "isDigit s2"
    and s: "s = [y1, y2, y3, y4, CHR ''-'', m1, m2, CHR ''-'', d1, d2, CHR '' '', h1, h2, CHR '':'',
                n1, n2, CHR '':'', s1, s2]"
  shows "replaceFirst (CHR '' '') (CHR ''T'') s @ ''-07:00''
         = [y1, y2, y3, y4, CHR ''-'', m1, m2, CHR ''-'', d1, d2, CHR ''T'', h1, h2, CHR '':'',
            n1, n2, CHR '':'', s1, s2, CHR ''-'', CHR ''0'', CHR ''7'', CHR '':'', CHR ''0'', CHR ''0'']"
    and "tsYear s = number [y1, y2, y3, y4]" and "tsMonth s = number [m1, m2]"
    and "tsDay s = number [d1, d2]" and "tsHour s = number [h1, h2]"
    and "tsMinute s = number [n1, n2]" and "tsSecond s = number [s1, s2]"
  using dg [THEN isDigit_not_space]
  by (simp_all add: s tsYear_def tsMonth_def tsDay_def tsHour_def tsMinute_def tsSecond_def substring_def)

lemma parseIso_explicit:
  assumes dg: "isDigit y1" "isDigit y2" "isDigit y3" "isDigit y4" "isDigit m1" "isDigit m2"
      "isDigit d1" "isDigit d2" "isDigit h1" "isDigit h2" "isDigit n1" "isDigit n2"
      "isDigit s1" "isDigit s2"
    and v: "validDate (number [y1, y2, y3, y4]) (number [m1, m2]) (number [d1, d2])"
    and r: "number [h1, h2] \<le> 23" "number [n1, n2] \<le> 59" "number [s1, s2] \<le> 59"
  shows "parseIsoDateTime
           [y1, y2, y3, y4, CHR ''-'', m1, m2, CHR ''-'', d1, d2, CHR ''T'', h1, h2, CHR '':'',
            n1, n2, CHR '':'', s1, s2, CHR ''-'', CHR ''0'', CHR ''7'', CHR '':'', CHR ''0'', CHR ''0'']
         = Some (MakeDate (MakeDay (number [y1, y2, y3, y4]) (number [m1, m2] - 1) (number [d1, d2]))
                   (MakeTime (number [h1, h2]) (number [n1, n2]) (number [s1, s2]) 0)
                 + 7 * msPerHour)"
proof -
  let ?iso = "[y1, y2, y3, y4, CHR ''-'', m1, m2, CHR ''-'', d1, d2, CHR ''T'', h1, h2, CHR '':'',
            n1, n2, CHR '':'', s1, s2, CHR ''-'', CHR ''0'', CHR ''7'', CHR '':'', CHR ''0'', CHR ''0'']"
  have shape: "isoShape ?iso"
    by (simp add: isoShape_def digitPositions_def dg isDigit_literals)
  have sub: "substring ?iso 0 4 = [y1, y2, y3, y4]" "substring ?iso 5 7 = [m1, m2]"
    "substring ?iso 8 10 = [d1, d2]" "substring ?iso 11 13 = [h1, h2]"
    "substring ?iso 14 16 = [n1, n2]" "substring ?iso 17 19 = [s1, s2]"
    "substring ?iso 20 22 = ''07''" "substring ?iso 23 25 = ''00''" "?iso ! 19 = CHR ''-''"
    by (simp_all add: substring_def)
  have off: "number ''07'' = 7" "number ''00'' = 0"
    by (simp_all add: number_two digitVal_literals)
  from v have "1 \<le> number [m1, m2]" "number [m1, m2] \<le> 12" "1 \<le> number [d1, d2]"
    "number [d1, d2] \<le> daysInMonth (number [y1, y2, y3, y4]) (number [m1, m2])"
    by (simp_all add: validDate_def)
  then show ?thesis
    unfolding parseIsoDateTime_def Let_def sub off using shape r by simp
qed

subsection \<open>convertMountainTimeToUTC\<close>

lemma convertMountainTimeToUTC_Some:
  "\<exists>date. convertMountainTimeToUTC legacy (Some od) = Inr date"
  by (simp add: convertMountainTimeToUTC_def Let_def)

lemma convertMountainTimeToUTC_valid:
  assumes tv: "Date_parse legacy (replaceFirst (CHR '' '') (CHR ''T'') s @ ''-07:00'')
                = Some (MakeDate (MakeDay y (m - 1) d) (MakeTime h mi sec 0))"
    and v: "validDate y m d" and h: "0 \<le> h" "h < 24" and mi: "0 \<le> mi" "mi < 60"
    and sec: "0 \<le> sec" "sec < 60"
  shows "convertMountainTimeToUTC legacy (Some s)
         = Inr (intToString y @ ''-'' @ twoDigits m @ ''-'' @ twoDigits d @ '' '' @ twoDigits h @ '':''
                @ twoDigits mi @ '' UTC'')"
proof -
  let ?t = "MakeDate (MakeDay y (m - 1) d) (MakeTime h mi sec 0)"
  note tf = time_fields [OF h mi sec]
  note rt = date_roundtrip [OF v tf(1) tf(2)]
  from v have m: "0 \<le> m" "m < 100" and d: "0 \<le> d" "d < 100"
    using leap_cases [of y] by (auto simp: validDate_def daysInMonth_def split: if_splits)
  have "padStart 2 (numberToString (map_option (\<lambda>m. m + 1) (getUTCMonth (Some ?t)))) = twoDigits m"
    using pad_twoDigits [OF m] by (simp add: getUTCMonth_def rt)
  moreover have "padStart 2 (numberToString (getUTCDate (Some ?t))) = twoDigits d"
    using pad_twoDigits [OF d] by (simp add: getUTCDate_def rt)
  moreover have "padStart 2 (numberToString (getUTCHours (Some ?t))) = twoDigits h"
    using pad_twoDigits [of h] h by (simp add: getUTCHours_def tf)
  moreover have "padStart 2 (numberToString (getUTCMinutes (Some ?t))) = twoDigits mi"
    using pad_twoDigits [of mi] mi by (simp add: getUTCMinutes_def tf)
  moreover have "numberToString (getUTCFullYear (Some ?t)) = intToString y"
    by (simp add: getUTCFullYear_def rt numberToString_def)
  ultimately show ?thesis
    by (simp add: convertMountainTimeToUTC_def Let_def tv)
qed

text \<open>
  For every well-formed timestamp the result is the timestamp seven hours later, with the year
  rendered by \<^verbatim>\<open>toString\<close>, that is without padding. For the years 1000 to 9999 this is the
  four-digit rendering.
\<close>

lemma convertMountainTimeToUTC_shift:
  assumes wf: "wellFormedTimestamp s"
  shows "convertMountainTimeToUTC legacy (Some s) = Inr (shiftedText intToString s)"
proof -
  define y1 y2 y3 y4 m1 m2 d1 d2 where c1: "y1 = s ! 0" "y2 = s ! 1" "y3 = s ! 2" "y4 = s ! 3"
    "m1 = s ! 5" "m2 = s ! 6" "d1 = s ! 8" "d2 = s ! 9"
  define h1 h2 n1 n2 s1 s2 where c2: "h1 = s ! 11" "h2 = s ! 12" "n1 = s ! 14" "n2 = s ! 15"
    "s1 = s ! 17" "s2 = s ! 18"
  from wf have len: "length s = 19"
    and sep: "s ! 4 = CHR ''-''" "s ! 7 = CHR ''-''" "s ! 10 = CHR '' ''" "s ! 13 = CHR '':''"
      "s ! 16 = CHR '':''"
    by (simp_all add: wellFormedTimestamp_def)
  have "[s ! 0, s ! 1, s ! 2, s ! 3, s ! 4, s ! 5, s ! 6, s ! 7, s ! 8, s ! 9, s ! 10,
         s ! 11, s ! 12, s ! 13, s ! 14, s ! 15, s ! 16, s ! 17, s ! 18]
        = [y1, y2, y3, y4, CHR ''-'', m1, m2, CHR ''-'', d1, d2, CHR '' '', h1, h2, CHR '':'',
           n1, n2, CHR '':'', s1, s2]"
    by (simp add: c1 c2 sep)
  with list_19 [OF len]
  have s: "s = [y1, y2, y3, y4, CHR ''-'', m1, m2, CHR ''-'', d1, d2, CHR '' '', h1, h2, CHR '':'',
                n1, n2, CHR '':'', s1, s2]"
    by (rule trans)
  from wf have dg: "isDigit y1" "isDigit y2" "isDigit y3" "isDigit y4" "isDigit m1" "isDigit m2"
      "isDigit d1" "isDigit d2" "isDigit h1" "isDigit h2" "isDigit n1" "isDigit n2"
      "isDigit s1" "isDigit s2"
    by (simp_all add: wellFormedTimestamp_def c1 c2)
  note ex = parse_explicit [OF dg s]
  define Y M D h mi sec where f: "Y = number [y1, y2, y3, y4]" "M = number [m1, m2]"
    "D = number [d1, d2]" "h = number [h1, h2]" "mi = number [n1, n2]" "sec = number [s1, s2]"
  from wf have v: "validDate Y M D" and r: "h \<le> 23" "mi \<le> 59" "sec \<le> 59"
    by (simp_all add: wellFormedTimestamp_def ex f)
  have nn: "0 \<le> h" "0 \<le> mi" "0 \<le> sec" "0 \<le> Y" "Y \<le> 9999"
    using dg [THEN digitVal_bounds] by (simp_all add: f number_two number_four)
  obtain Y' M' D' h' where p: "plusSevenHours (Y, M, D, h) = (Y', M', D', h')"
    by (cases "plusSevenHours (Y, M, D, h)") auto
  note ps = plusSevenHours_valid [OF v nn(1) r(1) p]
  have "parseIsoDateTime (replaceFirst (CHR '' '') (CHR ''T'') s @ ''-07:00'')
        = Some (MakeDate (MakeDay Y (M - 1) D) (MakeTime h mi sec 0) + 7 * msPerHour)"
    unfolding ex(1) f using v r by (intro parseIso_explicit dg) (simp_all add: f)
  then have pi: "parseIsoDateTime (replaceFirst (CHR '' '') (CHR ''T'') s @ ''-07:00'')
        = Some (MakeDate (MakeDay Y' (M' - 1) D') (MakeTime h' mi sec 0))"
    by (simp only: ps(6))
  have tf: "0 \<le> MakeTime h' mi sec 0" "MakeTime h' mi sec 0 < msPerDay"
    using time_fields(1,2) [of h' mi sec] ps(2,3) nn r by simp_all
  have "TimeClip (MakeDate (MakeDay Y' (M' - 1) D') (MakeTime h' mi sec 0))
        = Some (MakeDate (MakeDay Y' (M' - 1) D') (MakeTime h' mi sec 0))"
    using ps(4,5) nn by (intro TimeClip_in_range ps(1) tf) simp_all
  with pi have "Date_parse legacy (replaceFirst (CHR '' '') (CHR ''T'') s @ ''-07:00'')
        = Some (MakeDate (MakeDay Y' (M' - 1) D') (MakeTime h' mi sec 0))"
    by (simp add: Date_parse_def)
  then have "convertMountainTimeToUTC legacy (Some s)
         = Inr (intToString Y' @ ''-'' @ twoDigits M' @ ''-'' @ twoDigits D' @ '' '' @ twoDigits h' @ '':''
                @ twoDigits mi @ '' UTC'')"
    using ps(1,2,3) nn r
    by (intro convertMountainTimeToUTC_valid [of legacy s Y' M' D' h' mi sec]) simp_all
  moreover have "shiftedText intToString s
         = intToString Y' @ ''-'' @ twoDigits M' @ ''-'' @ twoDigits D' @ '' '' @ twoDigits h' @ '':''
                @ twoDigits mi @ '' UTC''"
    using p by (simp add: shiftedText_def ex f)
  ultimately show ?thesis by simp
qed

lemma convertMountainTimeToUTC_four_digit_year:
  assumes wf: "wellFormedTimestamp s" and lo: "1000 \<le> tsYear s"
    and hi: "\<not> (tsYear s = 9999 \<and> tsMonth s = 12 \<and> tsDay s = 31 \<and> 17 \<le> tsHour s)"
  shows "convertMountainTimeToUTC legacy (Some s) = Inr (shiftedText fourDigits s)"
proof -
  obtain y m d h where p: "plusSevenHours (tsYear s, tsMonth s, tsDay s, tsHour s) = (y, m, d, h)"
    by (cases "plusSevenHours (tsYear s, tsMonth s, tsDay s, tsHour s)") auto
  from wf have v: "validDate (tsYear s) (tsMonth s) (tsDay s)" and len: "length s = 19"
    and dg: "isDigit (s ! 0)" "isDigit (s ! 1)" "isDigit (s ! 2)" "isDigit (s ! 3)"
    by (simp_all add: wellFormedTimestamp_def)
  have "substring s 0 4 = [s ! 0, s ! 1, s ! 2, s ! 3]"
    by (subst list_19 [OF len]) (simp add: substring_def)
  then have top: "tsYear s \<le> 9999"
    using dg [THEN digitVal_bounds] by (simp add: tsYear_def number_four)
  have "1000 \<le> y \<and> y \<le> 9999"
  proof (cases "tsHour s + 7 < 24")
    case True
    with p lo top show ?thesis by (simp add: plusSevenHours_def)
  next
    case False
    then have h17: "17 \<le> tsHour s" by simp
    from v have "tsMonth s \<le> 12" "tsDay s \<le> daysInMonth (tsYear s) (tsMonth s)"
      by (simp_all add: validDate_def)
    with False p lo top hi h17 show ?thesis
      by (auto simp: plusSevenHours_def nextDay_def daysInMonth_def split: if_splits)
  qed
  then have "intToString y = fourDigits y"
    using year_fourDigits [of y] by (simp add: numberToString_def)
  with p have "shiftedText intToString s = shiftedText fourDigits s"
    by (simp add: shiftedText_def)
  with convertMountainTimeToUTC_shift [OF wf] show ?thesis by simp
qed

lemma convertMountainTimeToUTC_example:
  "convertMountainTimeToUTC legacy (Some ''2024-01-15 10:00:00'') = Inr ''2024-01-15 17:00 UTC''"
proof -
  have "wellFormedTimestamp ''2024-01-15 10:00:00''" by code_simp
  moreover have "shiftedText intToString ''2024-01-15 10:00:00'' = ''2024-01-15 17:00 UTC''"
    by code_simp
  ultimately show ?thesis using convertMountainTimeToUTC_shift by simp
qed

subsection \<open>Filter, mapper and serializer\<close>

lemma notSwap_Some: "row ''Order Type'' = Some ot \<Longrightarrow> notSwap row = Inr (\<not> sublist ''swap'' (toLowerCase ot))"
  by (simp add: notSwap_def includesStr_sublist)

lemma filteredData_filter:
  "\<forall>row \<in> set data. row ''Order Type'' \<noteq> None \<Longrightarrow> filteredData data = Inr (filter (\<lambda>row. \<not> isSwapRecord row) data)"
  by (induction data) (auto simp: notSwap_Some isSwapRecord_def)

lemma filteredData_throws:
  "notSwap row = Inl TypeError \<Longrightarrow> filteredData (xs @ row # ys) = Inl TypeError"
proof (induction xs)
  case Nil
  then show ?case by simp
next
  case (Cons a xs)
  then show ?case
    by (cases "notSwap a") (auto intro: error.exhaust)
qed

lemma filteredData_keeps:
  "filteredData (xs @ row # ys) = Inr fd \<Longrightarrow> notSwap row = Inr True \<Longrightarrow> row \<in> set fd"
proof (induction xs arbitrary: fd)
  case Nil
  then show ?case by (auto split: sum.splits)
next
  case (Cons a xs)
  then show ?case by (auto split: sum.splits if_splits)
qed

lemma orEmpty_eq: "orEmpty v = Some (case v of None \<Rightarrow> [] | Some s \<Rightarrow> s)"
  by (cases v) (auto simp: orEmpty_def truthy_def)

lemma unlessPlaceholder_eq:
  "unlessPlaceholder v = (if v = None \<or> v = Some ''-'' then Some [] else v)"
  by (cases v) (auto simp: unlessPlaceholder_def truthy_def)

lemma convertRow_returns:
  assumes "row ''Order Type'' = Some ot" and "row ''Order Date'' = Some od"
  shows "\<exists>out. convertRow legacy row = Inr out"
proof -
  obtain date where "convertMountainTimeToUTC legacy (Some od) = Inr date"
    using convertMountainTimeToUTC_Some by blast
  with assms show ?thesis by (simp add: convertRow_def Let_def)
qed

lemma convertedRows_throws:
  "row \<in> set fd \<Longrightarrow> convertRow legacy row = Inl TypeError \<Longrightarrow> convertedRows legacy fd = Inl TypeError"
proof (induction fd)
  case Nil
  then show ?case by simp
next
  case (Cons a fd)
  then show ?case by (cases "convertRow legacy a") (auto intro: error.exhaust split: sum.splits)
qed

lemma pushRows_append: "pushRows acc rows = acc @ map (\<lambda>row. join '','' (rowValues row)) rows"
  by (induction rows arbitrary: acc) auto

lemma generateKoinlyCsv_join:
  "generateKoinlyCsv rows = join '','' headers @ concat (map (\<lambda>row. newline # join '','' (rowValues row)) rows)"
proof -
  have "pushRows [join '','' headers] rows = join '','' headers # map (\<lambda>row. join '','' (rowValues row)) rows"
    by (simp add: pushRows_append)
  then show ?thesis
    by (simp add: generateKoinlyCsv_def join_Cons comp_def)
qed

lemma rowValue_Some:
  "row header = Some v \<Longrightarrow>
   rowValue row header = (if CHR '','' \<in> set v \<or> dquote \<in> set v then dquote # doubled v @ [dquote] else v)"
  by (simp add: rowValue_def includesStr_char replaceQuotes_concat doubled_def)

text \<open>
  The sample rows.
\<close>

lemma exampleRow_fields:
  "exampleRow ''Order Type'' = Some ''Buy''" "exampleRow ''Order Date'' = Some ''2024-01-15 10:00:00''"
  "exampleRow ''Crypto Amount'' = Some ''0.0021''" "exampleRow ''Crypto Code'' = Some ''BTC''"
  "exampleRow ''Fiat Code'' = Some ''CAD''" "exampleRow ''Fiat Amount'' = Some ''100.00''"
  "exampleRow ''Miner Fee'' = Some ''-''" "exampleRow ''Transaction Hash'' = Some ''abc123''"
  by (simp_all add: exampleRow_def object_def)

lemma sellRow_fields:
  "sellRow ''Order Type'' = Some ''Bitcoin SELL''" "sellRow ''Order Date'' = Some ''2024-01-15 10:00:00''"
  "sellRow ''Crypto Amount'' = Some ''0.0021''" "sellRow ''Crypto Code'' = Some ''BTC''"
  "sellRow ''Fiat Code'' = Some ''CAD''" "sellRow ''Fiat Amount'' = Some ''-''"
  "sellRow ''Miner Fee'' = Some ''0.00001''" "sellRow ''Transaction Hash'' = Some ''abc123''"
  by (simp_all add: sellRow_def exampleRow_def object_def)

lemma swapRow_fields: "swapRow ''Order Type'' = Some ''Swap BTC/ETH''"
  by (simp add: swapRow_def)

lemma example_swap_tests:
  "\<not> isSwapRecord exampleRow" "isSwapRecord swapRow" "\<not> isSwapRecord sellRow"
proof -
  have "\<not> includesStr (toLowerCase ''Buy'') ''swap''" by code_simp
  then show "\<not> isSwapRecord exampleRow"
    by (simp add: isSwapRecord_def exampleRow_fields includesStr_sublist)
  have "includesStr (toLowerCase ''Swap BTC/ETH'') ''swap''" by code_simp
  then show "isSwapRecord swapRow"
    by (simp add: isSwapRecord_def swapRow_fields includesStr_sublist)
  have "\<not> includesStr (toLowerCase ''Bitcoin SELL'') ''swap''" by code_simp
  then show "\<not> isSwapRecord sellRow"
    by (simp add: isSwapRecord_def sellRow_fields includesStr_sublist)
qed

lemma coreConversion_buy_example:
  assumes "r ''Order Type'' = Some ''Buy''" and "r ''Order Date'' = Some ''2024-01-15 10:00:00''"
  shows "\<exists>out. coreConversion no_fallback [r] = Inr [out]
           \<and> out ''Received Amount'' = r ''Crypto Amount''
           \<and> out ''Received Currency'' = r ''Crypto Code''"
proof -
  have l: "toLowerCase ''Buy'' = ''buy''" by code_simp
  have i: "includesStr ''buy'' ''buy''" "\<not> includesStr ''buy'' ''swap''" by code_simp+
  show ?thesis
    by (simp add: coreConversion_def notSwap_def convertRow_def assms l i
        convertMountainTimeToUTC_example object_def del: includesStr.simps)
qed

subsection \<open>Rows with a missing key\<close>

text \<open>
  The filter and the mapper act row by row, so rows that are alike give like results.
\<close>

lemma filteredData_rel:
  assumes "\<And>a b. R a b \<Longrightarrow> notSwap a = notSwap b"
  shows "list_all2 R d1 d2 \<Longrightarrow> rel_sum (=) (list_all2 R) (filteredData d1) (filteredData d2)"
proof (induction d1 d2 rule: list_all2_induct)
  case Nil
  then show ?case by simp
next
  case (Cons x xs y ys)
  then have n: "notSwap x = notSwap y" by (simp add: assms)
  show ?case
  proof (cases "notSwap y")
    case (Inl e)
    with n show ?thesis by simp
  next
    case (Inr keep)
    with n Cons show ?thesis
      by (cases "filteredData xs"; cases "filteredData ys") auto
  qed
qed

lemma convertedRows_rel:
  assumes "\<And>a b. R a b \<Longrightarrow> rel_sum (=) Q (convertRow legacy a) (convertRow legacy b)"
  shows "list_all2 R d1 d2 \<Longrightarrow>
         rel_sum (=) (list_all2 Q) (convertedRows legacy d1) (convertedRows legacy d2)"
proof (induction d1 d2 rule: list_all2_induct)
  case Nil
  then show ?case by simp
next
  case (Cons x xs y ys)
  from assms [OF Cons.hyps(1)] Cons.IH show ?case
    by (cases "convertRow legacy x"; cases "convertRow legacy y";
        cases "convertedRows legacy xs"; cases "convertedRows legacy ys") auto
qed

lemma coreConversion_cong:
  assumes "list_all2 (sameConversion legacy) d1 d2"
  shows "coreConversion legacy d1 = coreConversion legacy d2"
proof -
  have f: "rel_sum (=) (list_all2 (sameConversion legacy)) (filteredData d1) (filteredData d2)"
    using assms by (rule filteredData_rel [rotated]) (simp add: sameConversion_def)
  have c: "convertedRows legacy f1 = convertedRows legacy f2"
    if "list_all2 (sameConversion legacy) f1 f2" for f1 f2
  proof -
    have "rel_sum (=) (list_all2 (=)) (convertedRows legacy f1) (convertedRows legacy f2)"
      using that by (rule convertedRows_rel [rotated]) (simp add: sameConversion_def sum.rel_eq)
    then show ?thesis by (simp add: list.rel_eq sum.rel_eq)
  qed
  from f show ?thesis
    by (cases "filteredData d1"; cases "filteredData d2") (auto simp: coreConversion_def dest: c)
qed

lemma generateKoinlyCsv_cong:
  "list_all2 (\<lambda>o1 o2. rowValues o1 = rowValues o2) rs1 rs2 \<Longrightarrow>
   generateKoinlyCsv rs1 = generateKoinlyCsv rs2"
  by (induction rs1 rs2 rule: list_all2_induct) (simp_all add: generateKoinlyCsv_join)

lemma complete_cong:
  assumes "list_all2 (sameCsv legacy) d1 d2"
  shows "complete legacy d1 = complete legacy d2"
proof -
  have f: "rel_sum (=) (list_all2 (sameCsv legacy)) (filteredData d1) (filteredData d2)"
    using assms by (rule filteredData_rel [rotated]) (simp add: sameCsv_def)
  have c: "rel_sum (=) (list_all2 (\<lambda>o1 o2. rowValues o1 = rowValues o2))
             (convertedRows legacy f1) (convertedRows legacy f2)"
    if "list_all2 (sameCsv legacy) f1 f2" for f1 f2
    using that by (rule convertedRows_rel [rotated]) (simp add: sameCsv_def)
  show ?thesis
  proof (cases "filteredData d1")
    case (Inl e)
    with f show ?thesis by (cases "filteredData d2") (simp_all add: complete_def coreConversion_def)
  next
    case (Inr f1)
    with f obtain f2 where f2: "filteredData d2 = Inr f2" "list_all2 (sameCsv legacy) f1 f2"
      by (cases "filteredData d2") simp_all
    from c [OF f2(2)] show ?thesis
      by (cases "convertedRows legacy f1"; cases "convertedRows legacy f2")
         (simp_all add: complete_def coreConversion_def Inr f2(1) generateKoinlyCsv_cong)
  qed
qed

lemma list_all2_replace:
  "R r1 r2 \<Longrightarrow> (\<And>x. R x x) \<Longrightarrow> list_all2 R (xs @ r1 # ys) (xs @ r2 # ys)"
  by (simp add: list_all2_appendI list_all2_refl)

lemma sameConversion_refl: "sameConversion legacy r r"
  by (simp add: sameConversion_def)

lemma sameCsv_refl: "sameCsv legacy r r"
  by (cases "convertRow legacy r") (simp_all add: sameCsv_def)

text \<open>
  A missing key against the key bound to the empty string.
\<close>

lemma notSwap_missing:
  "k \<noteq> ''Order Type'' \<Longrightarrow> notSwap (row(k := None)) = notSwap (row(k \<mapsto> []))"
  by (simp add: notSwap_def)

lemma convertRow_missing:
  assumes "k \<noteq> ''Order Type''" "k \<noteq> ''Order Date''" "k \<noteq> ''Crypto Amount''" "k \<noteq> ''Crypto Code''"
  shows "convertRow legacy (row(k := None)) = convertRow legacy (row(k \<mapsto> []))"
proof -
  have "orEmpty ((row(k := None)) f) = orEmpty ((row(k \<mapsto> [])) f)" for f
    by (simp add: orEmpty_def truthy_def)
  moreover have "unlessPlaceholder ((row(k := None)) f) = unlessPlaceholder ((row(k \<mapsto> [])) f)" for f
    by (auto simp: unlessPlaceholder_def truthy_def split: option.splits)
  moreover have "(row(k := None)) ''Order Type'' = (row(k \<mapsto> [])) ''Order Type''"
    "(row(k := None)) ''Order Date'' = (row(k \<mapsto> [])) ''Order Date''"
    "(row(k := None)) ''Crypto Amount'' = (row(k \<mapsto> [])) ''Crypto Amount''"
    "(row(k := None)) ''Crypto Code'' = (row(k \<mapsto> [])) ''Crypto Code''"
    using assms by simp_all
  ultimately show ?thesis unfolding convertRow_def by (simp only:)
qed

lemma rowValue_emitted: "rowValue row h = emitted (row h)"
  by (simp add: rowValue_def emitted_def)

lemma emitted_None: "emitted None = emitted (Some [])"
  by (simp add: emitted_def rowValue_def)

lemma rowValues_object:
  "rowValues (object kvs) = map (\<lambda>h. emitted (case map_of kvs h of None \<Rightarrow> None | Some v \<Rightarrow> v)) headers"
  by (simp add: rowValues_def rowValue_emitted object_def)

lemma convertRow_csv_cong:
  assumes d: "r1 ''Order Date'' = r2 ''Order Date''" and t: "r1 ''Order Type'' = r2 ''Order Type''"
    and e: "\<And>f. emitted (r1 f) = emitted (r2 f)"
    and u: "\<And>f. unlessPlaceholder (r1 f) = unlessPlaceholder (r2 f)"
    and o: "\<And>f. orEmpty (r1 f) = orEmpty (r2 f)"
  shows "rel_sum (=) (\<lambda>o1 o2. rowValues o1 = rowValues o2) (convertRow legacy r1) (convertRow legacy r2)"
proof (cases "convertMountainTimeToUTC legacy (r2 ''Order Date'')")
  case (Inl err)
  then show ?thesis by (simp add: convertRow_def d)
next
  case (Inr date)
  show ?thesis
  proof (cases "r2 ''Order Type''")
    case None
    with Inr show ?thesis by (simp add: convertRow_def d t)
  next
    case (Some ot)
    with Inr show ?thesis
      by (cases "includesStr (toLowerCase ot) ''buy''"; cases "includesStr (toLowerCase ot) ''sell''")
         (simp_all add: convertRow_def d t rowValues_object headers_def e u o)
  qed
qed

lemma convertRow_missing_csv:
  assumes "k \<noteq> ''Order Type''" "k \<noteq> ''Order Date''"
  shows "rel_sum (=) (\<lambda>o1 o2. rowValues o1 = rowValues o2)
           (convertRow legacy (row(k := None))) (convertRow legacy (row(k \<mapsto> [])))"
proof (rule convertRow_csv_cong)
  show "(row(k := None)) ''Order Date'' = (row(k \<mapsto> [])) ''Order Date''" using assms by simp
  show "(row(k := None)) ''Order Type'' = (row(k \<mapsto> [])) ''Order Type''" using assms by simp
  show "emitted ((row(k := None)) f) = emitted ((row(k \<mapsto> [])) f)" for f
    by (simp add: emitted_None)
  show "unlessPlaceholder ((row(k := None)) f) = unlessPlaceholder ((row(k \<mapsto> [])) f)" for f
    by (auto simp: unlessPlaceholder_def truthy_def split: option.splits)
  show "orEmpty ((row(k := None)) f) = orEmpty ((row(k \<mapsto> [])) f)" for f
    by (simp add: orEmpty_def truthy_def)
qed

lemma coreConversion_no_date:
  assumes "row ''Order Type'' = Some ot" and "\<not> sublist ''swap'' (toLowerCase ot)"
  shows "coreConversion legacy (xs @ row(''Order Date'' := None) # ys) = Inl TypeError"
proof -
  let ?r = "row(''Order Date'' := None)"
  from assms have n: "notSwap ?r = Inr True" by (simp add: notSwap_def includesStr_sublist)
  have c: "convertRow legacy ?r = Inl TypeError"
    by (simp add: convertRow_def convertMountainTimeToUTC_def)
  show ?thesis
  proof (cases "filteredData (xs @ ?r # ys)")
    case (Inl e)
    then show ?thesis by (cases e) (simp add: coreConversion_def)
  next
    case (Inr fd)
    with filteredData_keeps [OF Inr n] c show ?thesis
      by (simp add: coreConversion_def convertedRows_throws)
  qed
qed

subsection \<open>The serializer on arbitrary values\<close>

lemma joinElement_emitted:
  "row h \<noteq> JSymbol \<Longrightarrow> joinElement (rowValueAny row h) = Inr (emittedValue (row h))"
  by (cases "row h")
     (simp_all add: rowValueAny_def joinElement_def emittedValue_def csvField_def includesStr_char
        replaceQuotes_concat doubled_def)


lemma joinAny_map:
  "\<forall>x\<in>set xs. joinElement (f x) = Inr (t x) \<Longrightarrow> joinAny sep (map f xs) = Inr (join sep (map t xs))"
  by (induction xs rule: induct_list012) simp_all


lemma join_headers: "join '','' (map t headers) = line12 t"
  by (simp add: headers_def line12_def)

lemma noSymbol_iff: "noSymbol row = (\<forall>h\<in>set headers. row h \<noteq> JSymbol)"
  by (simp add: noSymbol_def list_all_iff)

lemma row_line:
  assumes "noSymbol row"
  shows "joinAny '','' (map (rowValueAny row) headers) = Inr (csvLine row)"
proof -
  from assms have "\<forall>h\<in>set headers. joinElement (rowValueAny row h) = Inr (emittedValue (row h))"
    by (simp add: noSymbol_iff joinElement_emitted)
  then have "joinAny '','' (map (rowValueAny row) headers)
             = Inr (join '','' (map (\<lambda>h. emittedValue (row h)) headers))"
    by (rule joinAny_map)
  then show ?thesis by (simp add: join_headers csvLine_def)
qed


lemma pushRowsAny_lines:
  "list_all noSymbol rows \<Longrightarrow> pushRowsAny acc rows = Inr (acc @ map csvLine rows)"
  by (induction rows arbitrary: acc) (simp_all add: row_line)


lemma headers_line: "join '','' headers = headerLine"
  by (simp add: headers_def headerLine_def)

lemma generateKoinlyCsvAny_text:
  assumes "list_all noSymbol rows"
  shows "generateKoinlyCsvAny rows = Inr (headerLine @ concat (map (\<lambda>row. newline # csvLine row) rows))"
  by (simp add: generateKoinlyCsvAny_def pushRowsAny_lines [OF assms] headers_line join_Cons comp_def)


lemma wellFormed_noSymbol: "wellFormedTargetRecord row \<Longrightarrow> noSymbol row"
  by (auto simp: wellFormedTargetRecord_def noSymbol_def list_all_iff split: jsvalue.splits)

text \<open>Lines.\<close>

lemma splitLines_nonempty: "splitLines s \<noteq> []"
  by (induction s) (auto split: list.splits)

lemma splitLines_plain: "newline \<notin> set a \<Longrightarrow> splitLines a = [a]"
  by (induction a) auto

lemma splitLines_append: "newline \<notin> set a \<Longrightarrow> splitLines (a @ newline # b) = a # splitLines b"
  by (induction a) auto

lemma splitLines_document:
  "newline \<notin> set h \<Longrightarrow> \<forall>l\<in>set ls. newline \<notin> set l \<Longrightarrow>
   splitLines (h @ concat (map (\<lambda>l. newline # l) ls)) = h # ls"
proof (induction ls arbitrary: h)
  case Nil
  then show ?case by (simp add: splitLines_plain)
next
  case (Cons l ls)
  then have "splitLines (l @ concat (map (\<lambda>l. newline # l) ls)) = l # ls" by simp
  with Cons.prems(1) show ?case by (simp add: splitLines_append)
qed

lemma last_document:
  "h \<noteq> [] \<Longrightarrow> \<forall>l\<in>set ls. l \<noteq> [] \<Longrightarrow>
   last (h @ concat (map (\<lambda>l. newline # l) ls)) = last (last (h # ls))"
proof (induction ls arbitrary: h)
  case Nil
  then show ?case by simp
next
  case (Cons l ls)
  then have "last (l @ concat (map (\<lambda>l. newline # l) ls)) = last (last (l # ls))" by simp
  moreover have "l \<noteq> []" using Cons.prems by simp
  ultimately show ?case by simp
qed

lemma newline_chars: "newline \<noteq> CHR '',''" "newline \<noteq> dquote" "CHR '','' \<noteq> newline" "dquote \<noteq> newline"
  by (simp_all add: newline_def dquote_def)

lemma headerLine_plain: "newline \<notin> set headerLine" "headerLine \<noteq> []"
  by (simp_all add: headerLine_def newline_def)

lemma doubled_set: "set (doubled s) \<subseteq> insert dquote (set s)"
  by (induction s) (auto simp: doubled_def)

lemma csvField_plain: "newline \<notin> set s \<Longrightarrow> newline \<notin> set (csvField s)"
  using doubled_set [of s] by (auto simp: csvField_def newline_chars)

lemma line12_plain:
  "\<forall>h\<in>set headers. newline \<notin> set (f h) \<Longrightarrow> newline \<notin> set (line12 f)"
  by (simp add: headers_def line12_def newline_chars)

lemma line12_nonempty: "line12 f \<noteq> []"
  by (simp add: line12_def)

lemma csvLine_plain:
  assumes "wellFormedTargetRecord row" "noLineBreak row"
  shows "newline \<notin> set (csvLine row)"
  unfolding csvLine_def
proof (rule line12_plain, rule ballI)
  fix h assume h: "h \<in> set headers"
  with assms(1) obtain s where s: "row h = JString s"
    by (cases "row h") (auto simp: wellFormedTargetRecord_def list_all_iff)
  with assms(2) h have "newline \<notin> set s" by (auto simp: noLineBreak_def list_all_iff)
  with s show "newline \<notin> set (emittedValue (row h))" by (simp add: emittedValue_def csvField_plain)
qed

lemma rowValue_emittedValue: "rowValue row h = emittedValue (asValues row h)"
  by (cases "row h")
     (simp_all add: rowValue_def asValues_def emittedValue_def csvField_def includesStr_char
        replaceQuotes_concat doubled_def)

lemma asValues_noSymbol: "noSymbol (asValues row)"
  by (simp add: noSymbol_def asValues_def list_all_iff split: option.splits)

lemma generateKoinlyCsvAny_typed:
  "generateKoinlyCsvAny (map asValues rows) = Inr (generateKoinlyCsv rows)"
proof -
  have "list_all noSymbol (map asValues rows)" by (simp add: list_all_iff asValues_noSymbol)
  moreover have "csvLine (asValues row) = join '','' (rowValues row)" for row
  proof -
    have "rowValue row = (\<lambda>h. emittedValue (asValues row h))"
      by (rule ext) (rule rowValue_emittedValue)
    then show ?thesis by (simp add: csvLine_def rowValues_def join_headers)
  qed
  ultimately show ?thesis
    by (simp add: generateKoinlyCsvAny_text generateKoinlyCsv_join headers_line comp_def)
qed

lemma plainRecord_line: "csvLine plainRecord = ''2024-01-15 17:00 UTC,100.00,CAD,0.0021,BTC,,BTC,,,Buy,,abc123''"
  by code_simp

lemma plainRecord_wf: "wellFormedTargetRecord plainRecord" "noLineBreak plainRecord"
  by code_simp+




subsection \<open>The claims\<close>

text \<open>
  Claim C1. For a record whose order type, lower-cased, contains \<^verbatim>\<open>buy\<close> (whether or not it
  also contains \<^verbatim>\<open>sell\<close>) and whose order date is present, \<open>convertRow\<close> returns a row with
  Label \<^verbatim>\<open>Buy\<close>, Received Amount and Currency the crypto amount and code, Sent Currency the fiat
  code, and Sent Amount the fiat amount, or the empty string when the fiat amount is absent or the
  placeholder \<^verbatim>\<open>-\<close>.
\<close>

theorem convertRow_buy:
  assumes "row ''Order Type'' = Some ot" and "sublist ''buy'' (toLowerCase ot)"
    and "row ''Order Date'' = Some od"
  shows "\<exists>out. convertRow legacy row = Inr out
           \<and> out ''Label'' = Some ''Buy''
           \<and> out ''Received Amount'' = row ''Crypto Amount''
           \<and> out ''Received Currency'' = row ''Crypto Code''
           \<and> out ''Sent Currency'' = Some (case row ''Fiat Code'' of None \<Rightarrow> [] | Some c \<Rightarrow> c)
           \<and> out ''Sent Amount'' =
               (if row ''Fiat Amount'' = None \<or> row ''Fiat Amount'' = Some ''-'' then Some []
                else row ''Fiat Amount'')"
proof -
  obtain date where "convertMountainTimeToUTC legacy (Some od) = Inr date"
    using convertMountainTimeToUTC_Some by blast
  with assms show ?thesis
    by (simp add: convertRow_def includesStr_sublist object_def orEmpty_eq unlessPlaceholder_eq)
qed

theorem convertRow_buy_witness:
  "exampleRow ''Order Type'' = Some ''Buy'' \<and> sublist ''buy'' (toLowerCase ''Buy'')
   \<and> exampleRow ''Order Date'' = Some ''2024-01-15 10:00:00''
   \<and> (\<exists>out. convertRow no_fallback exampleRow = Inr out
           \<and> out ''Label'' = Some ''Buy''
           \<and> out ''Received Amount'' = Some ''0.0021''
           \<and> out ''Received Currency'' = Some ''BTC''
           \<and> out ''Sent Currency'' = Some ''CAD''
           \<and> out ''Sent Amount'' = Some ''100.00'')"
proof -
  have a: "exampleRow ''Order Type'' = Some ''Buy''" by (simp add: exampleRow_def object_def)
  have b: "sublist ''buy'' (toLowerCase ''Buy'')"
  proof -
    have "includesStr (toLowerCase ''Buy'') ''buy''" by code_simp
    then show ?thesis by (simp only: includesStr_sublist)
  qed
  have c: "exampleRow ''Order Date'' = Some ''2024-01-15 10:00:00''" by (simp add: exampleRow_def object_def)
  have d: "exampleRow ''Crypto Amount'' = Some ''0.0021''" "exampleRow ''Crypto Code'' = Some ''BTC''"
     "exampleRow ''Fiat Code'' = Some ''CAD''" "exampleRow ''Fiat Amount'' = Some ''100.00''"
    by (simp_all add: exampleRow_def object_def)
  show ?thesis using convertRow_buy [OF a b c, of no_fallback] a b c d by simp
qed

text \<open>
  Claim C2. For a record whose order type, lower-cased, contains \<^verbatim>\<open>sell\<close> and not
  \<^verbatim>\<open>buy\<close>, \<open>convertRow\<close> returns a row with Label \<^verbatim>\<open>Sell\<close>, Sent Amount and Currency the
  crypto amount and code, Received Currency the fiat code, and Received Amount the fiat amount, or
  the empty string when the fiat amount is absent or the placeholder \<^verbatim>\<open>-\<close>.
\<close>

theorem convertRow_sell:
  assumes "row ''Order Type'' = Some ot" and "sublist ''sell'' (toLowerCase ot)"
    and "\<not> sublist ''buy'' (toLowerCase ot)" and "row ''Order Date'' = Some od"
  shows "\<exists>out. convertRow legacy row = Inr out
           \<and> out ''Label'' = Some ''Sell''
           \<and> out ''Sent Amount'' = row ''Crypto Amount''
           \<and> out ''Sent Currency'' = row ''Crypto Code''
           \<and> out ''Received Currency'' = Some (case row ''Fiat Code'' of None \<Rightarrow> [] | Some c \<Rightarrow> c)
           \<and> out ''Received Amount'' =
               (if row ''Fiat Amount'' = None \<or> row ''Fiat Amount'' = Some ''-'' then Some []
                else row ''Fiat Amount'')"
proof -
  obtain date where "convertMountainTimeToUTC legacy (Some od) = Inr date"
    using convertMountainTimeToUTC_Some by blast
  with assms show ?thesis
    by (simp add: convertRow_def includesStr_sublist object_def orEmpty_eq unlessPlaceholder_eq)
qed

theorem convertRow_sell_witness:
  "sellRow ''Order Type'' = Some ''Bitcoin SELL'' \<and> sublist ''sell'' (toLowerCase ''Bitcoin SELL'')
   \<and> \<not> sublist ''buy'' (toLowerCase ''Bitcoin SELL'')
   \<and> sellRow ''Order Date'' = Some ''2024-01-15 10:00:00''
   \<and> (\<exists>out. convertRow no_fallback sellRow = Inr out
           \<and> out ''Label'' = Some ''Sell''
           \<and> out ''Sent Amount'' = Some ''0.0021''
           \<and> out ''Sent Currency'' = Some ''BTC''
           \<and> out ''Received Currency'' = Some ''CAD''
           \<and> out ''Received Amount'' = Some [])"
proof -
  have "includesStr (toLowerCase ''Bitcoin SELL'') ''sell''" by code_simp
  then have b: "sublist ''sell'' (toLowerCase ''Bitcoin SELL'')" by (simp only: includesStr_sublist)
  have "\<not> includesStr (toLowerCase ''Bitcoin SELL'') ''buy''" by code_simp
  then have c: "\<not> sublist ''buy'' (toLowerCase ''Bitcoin SELL'')" unfolding includesStr_sublist .
  show ?thesis
    using convertRow_sell [OF sellRow_fields(1) b c sellRow_fields(2), of no_fallback] b c sellRow_fields
    by simp
qed

text \<open>
  Claim C3. A well-formed timestamp is read at the fixed offset of seven hours behind UTC and
  rendered seven hours later as \<^verbatim>\<open>YYYY-MM-DD HH:mm UTC\<close>. The year is interpolated without
  padding, so a year below 1000 comes out with fewer than four digits: the well-formed
  \<^verbatim>\<open>0999-01-01 00:00:00\<close> gives \<^verbatim>\<open>999-01-01 07:00 UTC\<close>, where the format asks for
  \<^verbatim>\<open>0999-01-01 07:00 UTC\<close>.
\<close>

theorem convertMountainTimeToUTC_year_999:
  "wellFormedTimestamp ''0999-01-01 00:00:00''
   \<and> convertMountainTimeToUTC legacy (Some ''0999-01-01 00:00:00'') = Inr ''999-01-01 07:00 UTC''
   \<and> shiftedText fourDigits ''0999-01-01 00:00:00'' = ''0999-01-01 07:00 UTC''"
proof -
  have w: "wellFormedTimestamp ''0999-01-01 00:00:00''" by code_simp
  moreover have "shiftedText intToString ''0999-01-01 00:00:00'' = ''999-01-01 07:00 UTC''"
    by code_simp
  moreover have "shiftedText fourDigits ''0999-01-01 00:00:00'' = ''0999-01-01 07:00 UTC''"
    by code_simp
  ultimately show ?thesis using convertMountainTimeToUTC_shift [OF w] by simp
qed

text \<open>
  Claim C4, as the code has it. \<open>convertMountainTimeToUTC\<close> validates nothing and raises no error
  on any string: it always returns a text, and whenever \<^verbatim>\<open>Date.parse\<close> gives \<^verbatim>\<open>NaN\<close> for the
  string, that text is \<^verbatim>\<open>NaN-NaN-NaN NaN:NaN UTC\<close>.
\<close>

theorem convertMountainTimeToUTC_no_error:
  "(\<exists>out. convertMountainTimeToUTC legacy (Some s) = Inr out)
   \<and> (Date_parse legacy (replaceFirst (CHR '' '') (CHR ''T'') s @ ''-07:00'') = None \<longrightarrow>
        convertMountainTimeToUTC legacy (Some s) = Inr ''NaN-NaN-NaN NaN:NaN UTC'')"
  by (simp add: convertMountainTimeToUTC_def Let_def getUTCFullYear_def getUTCMonth_def
      getUTCDate_def getUTCHours_def getUTCMinutes_def numberToString_def padStart_def)

theorem convertMountainTimeToUTC_no_error_witness:
  "Date_parse no_fallback (replaceFirst (CHR '' '') (CHR ''T'') ''not a date'' @ ''-07:00'') = None
   \<and> convertMountainTimeToUTC no_fallback (Some ''not a date'') = Inr ''NaN-NaN-NaN NaN:NaN UTC''"
proof -
  have "Date_parse no_fallback (replaceFirst (CHR '' '') (CHR ''T'') ''not a date'' @ ''-07:00'') = None"
    by code_simp
  with convertMountainTimeToUTC_no_error [of no_fallback "''not a date''"] show ?thesis by simp
qed

text \<open>
  Claim C4 as stated asks for an explicit error on a malformed timestamp. A timestamp with
  non-numeric components is converted without any error, to a text that is no date.
\<close>

theorem malformed_timestamp_counterexample:
  "convertMountainTimeToUTC no_fallback (Some ''abcd-ef-gh ij:kl:mn'') = Inr ''NaN-NaN-NaN NaN:NaN UTC''"
  by code_simp

text \<open>
  Claim C5. On records that carry an order type, the swap filter returns exactly the records that
  are not swap records, in their original order and with duplicates kept; the output is shorter than
  the input by the number of swap records, and the empty input gives the empty output.
\<close>

theorem filteredData_subsequence:
  assumes "\<forall>row \<in> set data. row ''Order Type'' \<noteq> None"
  shows "filteredData data = Inr (filter (\<lambda>row. \<not> isSwapRecord row) data)
         \<and> length (filter (\<lambda>row. \<not> isSwapRecord row) data) = length data - length (filter isSwapRecord data)
         \<and> filteredData [] = Inr []"
proof -
  have "length data = length (filter isSwapRecord data) + length (filter (\<lambda>row. \<not> isSwapRecord row) data)"
    by (rule sum_length_filter_compl [symmetric])
  then show ?thesis using filteredData_filter [OF assms] by simp
qed

theorem filteredData_subsequence_witness:
  "exampleRow ''Order Type'' \<noteq> None \<and> swapRow ''Order Type'' \<noteq> None
   \<and> sellRow ''Order Type'' \<noteq> None
   \<and> filteredData [exampleRow, swapRow, sellRow] = Inr [exampleRow, sellRow]
   \<and> length [exampleRow, sellRow] = length [exampleRow, swapRow, sellRow] - length [swapRow]"
proof -
  have h: "\<forall>row \<in> set [exampleRow, swapRow, sellRow]. row ''Order Type'' \<noteq> None"
    by (simp add: exampleRow_fields swapRow_fields sellRow_fields)
  show ?thesis using filteredData_subsequence [OF h] h by (simp add: example_swap_tests)
qed

text \<open>
  Claim C6. In every branch of \<open>convertRow\<close> the Date is the output of
  \<open>convertMountainTimeToUTC\<close> on the order date; Fee Amount is the miner fee, or empty when the fee
  is absent or \<^verbatim>\<open>-\<close>; Fee Currency is the crypto code; Net Worth Amount, Net Worth Currency and
  Description are empty; TxHash is the transaction hash, or empty when absent.
\<close>

theorem convertRow_common:
  assumes "row ''Order Type'' = Some ot" and "row ''Order Date'' = Some od"
  shows "\<exists>out date. convertRow legacy row = Inr out
           \<and> convertMountainTimeToUTC legacy (Some od) = Inr date
           \<and> out ''Date'' = Some date
           \<and> out ''Fee Amount'' =
               (if row ''Miner Fee'' = None \<or> row ''Miner Fee'' = Some ''-'' then Some []
                else row ''Miner Fee'')
           \<and> out ''Fee Currency'' = Some (case row ''Crypto Code'' of None \<Rightarrow> [] | Some c \<Rightarrow> c)
           \<and> out ''Net Worth Amount'' = Some []
           \<and> out ''Net Worth Currency'' = Some []
           \<and> out ''Description'' = Some []
           \<and> out ''TxHash'' = Some (case row ''Transaction Hash'' of None \<Rightarrow> [] | Some h \<Rightarrow> h)"
proof -
  obtain date where "convertMountainTimeToUTC legacy (Some od) = Inr date"
    using convertMountainTimeToUTC_Some by blast
  with assms show ?thesis
    by (cases "includesStr (toLowerCase ot) ''buy''"; cases "includesStr (toLowerCase ot) ''sell''")
       (simp_all add: convertRow_def object_def orEmpty_eq unlessPlaceholder_eq)
qed

theorem convertRow_common_witness:
  "sellRow ''Order Type'' = Some ''Bitcoin SELL'' \<and> sellRow ''Order Date'' = Some ''2024-01-15 10:00:00''
   \<and> (\<exists>out date. convertRow no_fallback sellRow = Inr out
           \<and> convertMountainTimeToUTC no_fallback (Some ''2024-01-15 10:00:00'') = Inr date
           \<and> out ''Date'' = Some date
           \<and> out ''Fee Amount'' = Some ''0.00001''
           \<and> out ''Fee Currency'' = Some ''BTC''
           \<and> out ''Net Worth Amount'' = Some []
           \<and> out ''Net Worth Currency'' = Some []
           \<and> out ''Description'' = Some []
           \<and> out ''TxHash'' = Some ''abc123'')"
  using convertRow_common [OF sellRow_fields(1) sellRow_fields(2), of no_fallback] sellRow_fields
  by simp

text \<open>
  Claim C7. A field is emitted between double quotes, with every double quote inside doubled,
  exactly when its text contains a comma or a double quote; every other field (one holding a line
  break included) is emitted as it is. The field \<^verbatim>\<open>Tom, "Bones"\<close> is emitted as
  \<^verbatim>\<open>"Tom, ""Bones"""\<close>.
\<close>

theorem rowValue_quoting:
  assumes "row header = Some v"
  shows "(CHR '','' \<in> set v \<or> dquote \<in> set v \<longrightarrow> rowValue row header = dquote # doubled v @ [dquote])
       \<and> (CHR '','' \<notin> set v \<and> dquote \<notin> set v \<longrightarrow> rowValue row header = v)
       \<and> (rowValue row header = dquote # doubled v @ [dquote] \<longrightarrow> CHR '','' \<in> set v \<or> dquote \<in> set v)
       \<and> (v = tomBones \<longrightarrow>
            rowValue row header = [dquote] @ ''Tom, '' @ [dquote, dquote] @ ''Bones'' @ [dquote, dquote, dquote])"
proof -
  note rv = rowValue_Some [of row header v, OF assms]
  have "rowValue row header = dquote # doubled v @ [dquote] \<Longrightarrow> CHR '','' \<in> set v \<or> dquote \<in> set v"
  proof (rule ccontr)
    assume q: "rowValue row header = dquote # doubled v @ [dquote]"
      and n: "\<not> (CHR '','' \<in> set v \<or> dquote \<in> set v)"
    then have "v = dquote # doubled v @ [dquote]" using rv by simp
    then have "dquote \<in> set v" by (metis list.set_intros(1))
    with n show False by simp
  qed
  moreover have "v = tomBones \<Longrightarrow>
      rowValue row header = [dquote] @ ''Tom, '' @ [dquote, dquote] @ ''Bones'' @ [dquote, dquote, dquote]"
    using rv by (simp add: tomBones_def doubled_def dquote_def)
  ultimately show ?thesis using rv by auto
qed

theorem rowValue_quoting_witness:
  "(Map.empty(''Description'' \<mapsto> tomBones)) ''Description'' = Some tomBones
   \<and> (CHR '','' \<in> set tomBones \<or> dquote \<in> set tomBones)
   \<and> rowValue (Map.empty(''Description'' \<mapsto> tomBones)) ''Description''
       = [dquote] @ ''Tom, '' @ [dquote, dquote] @ ''Bones'' @ [dquote, dquote, dquote]
   \<and> CHR '','' \<notin> set ''abc123'' \<and> dquote \<notin> set ''abc123''
   \<and> rowValue (Map.empty(''TxHash'' \<mapsto> ''abc123'')) ''TxHash'' = ''abc123''"
  using rowValue_quoting [of "Map.empty(''Description'' \<mapsto> tomBones)" "''Description''" tomBones]
    rowValue_quoting [of "Map.empty(''TxHash'' \<mapsto> ''abc123'')" "''TxHash''" "''abc123''"]
  by (simp add: tomBones_def dquote_def doubled_def)

text \<open>
  Claim C8, as the code has it. For every list of well-formed target records the serializer
  returns a text and throws nothing: the fixed header of twelve names followed, for each record in
  input order, by one newline character and the twelve emitted fields of that record joined by
  commas, with nothing after the last record. When no field contains a newline character, the
  lines of the text are therefore the header and exactly one line per record, and the text does
  not end in a newline.
\<close>

theorem generateKoinlyCsvAny_document:
  assumes "list_all wellFormedTargetRecord rows"
  shows "generateKoinlyCsvAny rows
           = Inr (''Date,Sent Amount,Sent Currency,Received Amount,Received Currency,Fee Amount,Fee Currency,Net Worth Amount,Net Worth Currency,Label,Description,TxHash''
                  @ concat (map (\<lambda>row. newline # csvLine row) rows))
         \<and> (list_all noLineBreak rows \<longrightarrow>
              (\<exists>out. generateKoinlyCsvAny rows = Inr out
                 \<and> splitLines out = headerLine # map csvLine rows
                 \<and> length (splitLines out) = Suc (length rows)
                 \<and> out \<noteq> [] \<and> last out \<noteq> newline))"
proof -
  let ?out = "headerLine @ concat (map (\<lambda>row. newline # csvLine row) rows)"
  from assms have "list_all noSymbol rows" by (simp add: list_all_iff wellFormed_noSymbol)
  then have t: "generateKoinlyCsvAny rows = Inr ?out" by (rule generateKoinlyCsvAny_text)
  have "splitLines ?out = headerLine # map csvLine rows \<and> last ?out \<noteq> newline"
    if nb: "list_all noLineBreak rows"
  proof -
    from assms nb have p: "\<forall>l\<in>set (map csvLine rows). newline \<notin> set l"
      by (simp add: list_all_iff csvLine_plain)
    have "?out = headerLine @ concat (map (\<lambda>l. newline # l) (map csvLine rows))"
      by (simp add: comp_def)
    moreover from p have "splitLines (headerLine @ concat (map (\<lambda>l. newline # l) (map csvLine rows)))
        = headerLine # map csvLine rows"
      by (rule splitLines_document [OF headerLine_plain(1)])
    moreover have "last (headerLine @ concat (map (\<lambda>l. newline # l) (map csvLine rows)))
        = last (last (headerLine # map csvLine rows))"
      by (rule last_document) (auto simp: headerLine_plain csvLine_def line12_nonempty)
    moreover have "last (last (headerLine # map csvLine rows)) \<noteq> newline"
    proof -
      have "last (headerLine # map csvLine rows) \<in> set (headerLine # map csvLine rows)"
        by (rule last_in_set) simp
      moreover have "\<forall>l\<in>set (headerLine # map csvLine rows). newline \<notin> set l \<and> l \<noteq> []"
        using p headerLine_plain by (auto simp: csvLine_def line12_nonempty)
      ultimately have "newline \<notin> set (last (headerLine # map csvLine rows))"
        and "last (headerLine # map csvLine rows) \<noteq> []"
        by blast+
      then show ?thesis by (metis last_in_set)
    qed
    ultimately show ?thesis by simp
  qed
  then have nb: "list_all noLineBreak rows \<Longrightarrow>
      splitLines ?out = headerLine # map csvLine rows \<and> last ?out \<noteq> newline" .
  have ne: "?out \<noteq> []" by (simp add: headerLine_plain)
  show ?thesis
  proof (intro conjI impI)
    show "generateKoinlyCsvAny rows
           = Inr (''Date,Sent Amount,Sent Currency,Received Amount,Received Currency,Fee Amount,Fee Currency,Net Worth Amount,Net Worth Currency,Label,Description,TxHash''
                  @ concat (map (\<lambda>row. newline # csvLine row) rows))"
      using t unfolding headerLine_def .
  next
    assume a: "list_all noLineBreak rows"
    from nb [OF a] have "length (splitLines ?out) = Suc (length rows)" by simp
    with t nb [OF a] ne
    show "\<exists>out. generateKoinlyCsvAny rows = Inr out
                 \<and> splitLines out = headerLine # map csvLine rows
                 \<and> length (splitLines out) = Suc (length rows)
                 \<and> out \<noteq> [] \<and> last out \<noteq> newline"
      by blast
  qed
qed

theorem generateKoinlyCsvAny_document_witness:
  "wellFormedTargetRecord plainRecord \<and> noLineBreak plainRecord
   \<and> generateKoinlyCsvAny [plainRecord, plainRecord]
       = Inr (''Date,Sent Amount,Sent Currency,Received Amount,Received Currency,Fee Amount,Fee Currency,Net Worth Amount,Net Worth Currency,Label,Description,TxHash''
              @ [newline] @ ''2024-01-15 17:00 UTC,100.00,CAD,0.0021,BTC,,BTC,,,Buy,,abc123''
              @ [newline] @ ''2024-01-15 17:00 UTC,100.00,CAD,0.0021,BTC,,BTC,,,Buy,,abc123'')
   \<and> (\<exists>out. generateKoinlyCsvAny [plainRecord, plainRecord] = Inr out
          \<and> length (splitLines out) = 3 \<and> last out \<noteq> newline)"
proof -
  have h: "list_all wellFormedTargetRecord [plainRecord, plainRecord]"
    "list_all noLineBreak [plainRecord, plainRecord]"
    by (simp_all add: plainRecord_wf)
  note d = generateKoinlyCsvAny_document [OF h(1)]
  from d have "generateKoinlyCsvAny [plainRecord, plainRecord]
       = Inr (''Date,Sent Amount,Sent Currency,Received Amount,Received Currency,Fee Amount,Fee Currency,Net Worth Amount,Net Worth Currency,Label,Description,TxHash''
              @ [newline] @ ''2024-01-15 17:00 UTC,100.00,CAD,0.0021,BTC,,BTC,,,Buy,,abc123''
              @ [newline] @ ''2024-01-15 17:00 UTC,100.00,CAD,0.0021,BTC,,BTC,,,Buy,,abc123'')"
    by (simp add: plainRecord_line)
  moreover from d h(2) obtain out where "generateKoinlyCsvAny [plainRecord, plainRecord] = Inr out"
    "length (splitLines out) = Suc (length [plainRecord, plainRecord])" "last out \<noteq> newline"
    by blast
  then have "\<exists>out. generateKoinlyCsvAny [plainRecord, plainRecord] = Inr out
          \<and> length (splitLines out) = 3 \<and> last out \<noteq> newline"
    by auto
  ultimately show ?thesis using plainRecord_wf by blast
qed

text \<open>
  Claim C8 as stated promises one line per record and no trailing newline for every list of
  records. A field holding a newline is emitted as it is: one record whose hash ends in a
  newline gives a text of three lines that ends in a newline.
\<close>

theorem line_per_record_counterexample:
  "wellFormedTargetRecord lineBreakRecord
   \<and> generateKoinlyCsvAny [lineBreakRecord] = Inr lineBreakDocument
   \<and> length (splitLines lineBreakDocument) = 3
   \<and> last lineBreakDocument = newline"
  by code_simp

text \<open>
  Claim C9, as the code has it. A missing key gives the same converted rows as the key bound to
  the empty string for every key except the order type, the order date, the crypto amount and the
  crypto code; for every key except the order type and the order date it gives the same CSV
  document. A record without an order type, and a record other than a swap without an order date,
  make the conversion throw a \<^verbatim>\<open>TypeError\<close>.
\<close>

theorem missing_key_as_empty:
  "(k \<notin> {''Order Type'', ''Order Date'', ''Crypto Amount'', ''Crypto Code''} \<longrightarrow>
      coreConversion legacy (xs @ row(k := None) # ys) = coreConversion legacy (xs @ row(k \<mapsto> []) # ys))
   \<and> (k \<notin> {''Order Type'', ''Order Date''} \<longrightarrow>
      complete legacy (xs @ row(k := None) # ys) = complete legacy (xs @ row(k \<mapsto> []) # ys))
   \<and> coreConversion legacy (xs @ row(''Order Type'' := None) # ys) = Inl TypeError
   \<and> (row ''Order Type'' = Some ot \<and> \<not> sublist ''swap'' (toLowerCase ot) \<longrightarrow>
      coreConversion legacy (xs @ row(''Order Date'' := None) # ys) = Inl TypeError)"
proof (intro conjI impI)
  assume "k \<notin> {''Order Type'', ''Order Date'', ''Crypto Amount'', ''Crypto Code''}"
  then have "sameConversion legacy (row(k := None)) (row(k \<mapsto> []))"
    unfolding sameConversion_def by (simp add: notSwap_missing convertRow_missing)
  then have "list_all2 (sameConversion legacy) (xs @ row(k := None) # ys) (xs @ row(k \<mapsto> []) # ys)"
    using list_all2_replace [of "sameConversion legacy" "row(k := None)" "row(k \<mapsto> [])" xs ys]
    by (simp add: sameConversion_refl)
  then show "coreConversion legacy (xs @ row(k := None) # ys) = coreConversion legacy (xs @ row(k \<mapsto> []) # ys)"
    by (rule coreConversion_cong)
next
  assume "k \<notin> {''Order Type'', ''Order Date''}"
  then have "sameCsv legacy (row(k := None)) (row(k \<mapsto> []))"
    unfolding sameCsv_def by (simp add: notSwap_missing convertRow_missing_csv)
  then have "list_all2 (sameCsv legacy) (xs @ row(k := None) # ys) (xs @ row(k \<mapsto> []) # ys)"
    using list_all2_replace [of "sameCsv legacy" "row(k := None)" "row(k \<mapsto> [])" xs ys]
    by (simp add: sameCsv_refl)
  then show "complete legacy (xs @ row(k := None) # ys) = complete legacy (xs @ row(k \<mapsto> []) # ys)"
    by (rule complete_cong)
next
  have "notSwap (row(''Order Type'' := None)) = Inl TypeError" by (simp add: notSwap_def)
  then show "coreConversion legacy (xs @ row(''Order Type'' := None) # ys) = Inl TypeError"
    by (simp add: coreConversion_def filteredData_throws)
next
  assume "row ''Order Type'' = Some ot \<and> \<not> sublist ''swap'' (toLowerCase ot)"
  then show "coreConversion legacy (xs @ row(''Order Date'' := None) # ys) = Inl TypeError"
    by (simp add: coreConversion_no_date)
qed

theorem missing_key_as_empty_witness:
  "''Miner Fee'' \<notin> {''Order Type'', ''Order Date'', ''Crypto Amount'', ''Crypto Code''}
   \<and> coreConversion no_fallback ([swapRow] @ exampleRow(''Miner Fee'' := None) # [sellRow])
       = coreConversion no_fallback ([swapRow] @ exampleRow(''Miner Fee'' \<mapsto> []) # [sellRow])
   \<and> ''Crypto Amount'' \<notin> {''Order Type'', ''Order Date''}
   \<and> complete no_fallback ([swapRow] @ exampleRow(''Crypto Amount'' := None) # [sellRow])
       = complete no_fallback ([swapRow] @ exampleRow(''Crypto Amount'' \<mapsto> []) # [sellRow])
   \<and> exampleRow ''Order Type'' = Some ''Buy'' \<and> \<not> sublist ''swap'' (toLowerCase ''Buy'')
   \<and> coreConversion no_fallback ([swapRow] @ exampleRow(''Order Date'' := None) # [sellRow])
       = Inl TypeError"
proof -
  have "\<not> includesStr (toLowerCase ''Buy'') ''swap''" by code_simp
  then have s: "\<not> sublist ''swap'' (toLowerCase ''Buy'')" unfolding includesStr_sublist .
  show ?thesis
    using missing_key_as_empty [of "''Miner Fee''" no_fallback "[swapRow]" exampleRow "[sellRow]" "''Buy''"]
      missing_key_as_empty [of "''Crypto Amount''" no_fallback "[swapRow]" exampleRow "[sellRow]" "''Buy''"]
      s exampleRow_fields(1)
    by simp
qed

text \<open>
  Claim C9 as stated covers every source field. On the sample buy order, each of the four
  excepted keys gives one result when missing and another when bound to the empty string.
\<close>

theorem missing_key_counterexample:
  "coreConversion no_fallback [exampleRow(''Order Type'' := None)]
     \<noteq> coreConversion no_fallback [exampleRow(''Order Type'' \<mapsto> [])]
   \<and> coreConversion no_fallback [exampleRow(''Order Date'' := None)]
     \<noteq> coreConversion no_fallback [exampleRow(''Order Date'' \<mapsto> [])]
   \<and> coreConversion no_fallback [exampleRow(''Crypto Amount'' := None)]
     \<noteq> coreConversion no_fallback [exampleRow(''Crypto Amount'' \<mapsto> [])]
   \<and> coreConversion no_fallback [exampleRow(''Crypto Code'' := None)]
     \<noteq> coreConversion no_fallback [exampleRow(''Crypto Code'' \<mapsto> [])]"
proof (intro conjI)
  have "coreConversion no_fallback [exampleRow(''Order Type'' := None)] = Inl TypeError"
    by (simp add: coreConversion_def notSwap_def)
  moreover have "notSwap (exampleRow(''Order Type'' \<mapsto> [])) = Inr True"
    by (simp add: notSwap_def toLowerCase_def)
  moreover obtain out where "convertRow no_fallback (exampleRow(''Order Type'' \<mapsto> [])) = Inr out"
    using convertRow_returns [of "exampleRow(''Order Type'' \<mapsto> [])" "[]" "''2024-01-15 10:00:00''"]
    by (auto simp: exampleRow_fields)
  ultimately show "coreConversion no_fallback [exampleRow(''Order Type'' := None)]
     \<noteq> coreConversion no_fallback [exampleRow(''Order Type'' \<mapsto> [])]"
    by (simp add: coreConversion_def)
next
  have "\<not> includesStr (toLowerCase ''Buy'') ''swap''" by code_simp
  then have s: "\<not> sublist ''swap'' (toLowerCase ''Buy'')" unfolding includesStr_sublist .
  have "coreConversion no_fallback ([] @ exampleRow(''Order Date'' := None) # []) = Inl TypeError"
    using exampleRow_fields(1) s by (rule coreConversion_no_date)
  moreover have "notSwap (exampleRow(''Order Date'' \<mapsto> [])) = Inr True"
    using s by (simp add: notSwap_def exampleRow_fields includesStr_sublist)
  moreover obtain out where "convertRow no_fallback (exampleRow(''Order Date'' \<mapsto> [])) = Inr out"
    using convertRow_returns [of "exampleRow(''Order Date'' \<mapsto> [])" "''Buy''" "[]"]
    by (auto simp: exampleRow_fields)
  ultimately show "coreConversion no_fallback [exampleRow(''Order Date'' := None)]
     \<noteq> coreConversion no_fallback [exampleRow(''Order Date'' \<mapsto> [])]"
    by (simp add: coreConversion_def)
next
  have "\<exists>out. coreConversion no_fallback [exampleRow(''Crypto Amount'' := None)] = Inr [out]
           \<and> out ''Received Amount'' = None"
    using coreConversion_buy_example [of "exampleRow(''Crypto Amount'' := None)"]
    by (auto simp: exampleRow_fields)
  moreover have "\<exists>out. coreConversion no_fallback [exampleRow(''Crypto Amount'' \<mapsto> [])] = Inr [out]
           \<and> out ''Received Amount'' = Some []"
    using coreConversion_buy_example [of "exampleRow(''Crypto Amount'' \<mapsto> [])"]
    by (auto simp: exampleRow_fields)
  ultimately show "coreConversion no_fallback [exampleRow(''Crypto Amount'' := None)]
     \<noteq> coreConversion no_fallback [exampleRow(''Crypto Amount'' \<mapsto> [])]"
    by auto
next
  have "\<exists>out. coreConversion no_fallback [exampleRow(''Crypto Code'' := None)] = Inr [out]
           \<and> out ''Received Currency'' = None"
    using coreConversion_buy_example [of "exampleRow(''Crypto Code'' := None)"]
    by (auto simp: exampleRow_fields)
  moreover have "\<exists>out. coreConversion no_fallback [exampleRow(''Crypto Code'' \<mapsto> [])] = Inr [out]
           \<and> out ''Received Currency'' = Some []"
    using coreConversion_buy_example [of "exampleRow(''Crypto Code'' \<mapsto> [])"]
    by (auto simp: exampleRow_fields)
  ultimately show "coreConversion no_fallback [exampleRow(''Crypto Code'' := None)]
     \<noteq> coreConversion no_fallback [exampleRow(''Crypto Code'' \<mapsto> [])]"
    by auto
qed




end
